theory Spec2Isabelle
  imports Complex_Main "HOL-Library.Log_Nat"
begin

section \<open>Data model\<close>

text \<open>
  A Go \<^verbatim>\<open>rune\<close> is an \<^verbatim>\<open>int32\<close> code point. The input of \<^verbatim>\<open>tokenize\<close> is modelled as
  the sequence of runes that \<^verbatim>\<open>for _, r := range input\<close> yields, and a Go string held in a
  token as the sequence of its runes. No arithmetic is done on runes, so they are \<open>int\<close>.
\<close>

type_synonym rune = int

text \<open>The token types of \<^verbatim>\<open>main.go\<close>: \<^verbatim>\<open>const (NUMBER = iota; OPERATOR; LPAREN; RPAREN)\<close>.\<close>

definition NUMBER :: int where "NUMBER = 0"
definition OPERATOR :: int where "OPERATOR = 1"
definition LPAREN :: int where "LPAREN = 2"
definition RPAREN :: int where "RPAREN = 3"

record Token =
  Type :: int
  Value :: "rune list"

text \<open>
  The errors of the program are made by \<^verbatim>\<open>fmt.Errorf\<close> or come from \<^verbatim>\<open>strconv.ParseFloat\<close>;
  each message is one constructor, with the value that the message formats.
\<close>

datatype numError = ErrSyntax | ErrRange

datatype error =
    InvalidCharacter rune
  | MismatchedParentheses
  | NumberParseError numError "rune list"
  | InsufficientOperands "rune list"
  | DivisionByZero
  | InvalidExpression

text \<open>An ASCII literal as the runes a \<^verbatim>\<open>range\<close> loop reads from it.\<close>

definition runes :: "string \<Rightarrow> rune list" where
  "runes s = map of_char s"

section \<open>Library functions used by the program\<close>

subsection \<open>Package unicode\<close>

text \<open>
  \<^verbatim>\<open>unicode.IsDigit\<close> and \<^verbatim>\<open>unicode.IsSpace\<close> decide runes up to \<^verbatim>\<open>MaxLatin1\<close> by
  themselves and look the others up in the range tables \<^verbatim>\<open>unicode.Digit\<close> and
  \<^verbatim>\<open>unicode.White_Space\<close>. The tables belong to the Go distribution and change with its
  Unicode version, so they are parameters here: a predicate on runes each.
\<close>

record unicode_tables =
  Digit :: "rune \<Rightarrow> bool"
  White_Space :: "rune \<Rightarrow> bool"

definition MaxLatin1 :: rune where "MaxLatin1 = 255"

definition IsDigit :: "unicode_tables \<Rightarrow> rune \<Rightarrow> bool" where
  "IsDigit U r = (if r \<le> MaxLatin1 then 48 \<le> r \<and> r \<le> 57 else Digit U r)"

definition IsSpace :: "unicode_tables \<Rightarrow> rune \<Rightarrow> bool" where
  "IsSpace U r =
     (if 0 \<le> r \<and> r \<le> MaxLatin1
      then r = 9 \<or> r = 10 \<or> r = 11 \<or> r = 12 \<or> r = 13 \<or> r = 32 \<or> r = 133 \<or> r = 160
      else White_Space U r)"

text \<open>\<^verbatim>\<open>strings.ContainsRune("+-*/", r)\<close>.\<close>

definition isOperatorRune :: "rune \<Rightarrow> bool" where
  "isOperatorRune r = (r \<in> set (runes ''+-*/''))"

section \<open>Tokenizer\<close>

text \<open>
  The four flushing branches of \<^verbatim>\<open>tokenize\<close> start with the same statement:
  if \<^verbatim>\<open>numBuilder.Len() > 0\<close>, append a NUMBER token and reset the builder.
\<close>

definition flush :: "Token list \<Rightarrow> rune list \<Rightarrow> Token list" where
  "flush tokens numBuilder =
     (if length numBuilder > 0 then tokens @ [\<lparr>Type = NUMBER, Value = numBuilder\<rparr>] else tokens)"

text \<open>The loop over the runes, with the state \<open>(tokens, numBuilder)\<close>.\<close>

fun tokenizeLoop ::
  "unicode_tables \<Rightarrow> rune list \<Rightarrow> Token list \<Rightarrow> rune list \<Rightarrow> error + (Token list \<times> rune list)"
where
  "tokenizeLoop U [] tokens numBuilder = Inr (tokens, numBuilder)"
| "tokenizeLoop U (r # rs) tokens numBuilder =
     (if IsDigit U r \<or> r = of_char CHR ''.'' then
        tokenizeLoop U rs tokens (numBuilder @ [r])
      else if isOperatorRune r then
        tokenizeLoop U rs (flush tokens numBuilder @ [\<lparr>Type = OPERATOR, Value = [r]\<rparr>]) []
      else if r = of_char CHR ''('' then
        tokenizeLoop U rs (flush tokens numBuilder @ [\<lparr>Type = LPAREN, Value = [r]\<rparr>]) []
      else if r = of_char CHR '')'' then
        tokenizeLoop U rs (flush tokens numBuilder @ [\<lparr>Type = RPAREN, Value = [r]\<rparr>]) []
      else if IsSpace U r then
        tokenizeLoop U rs (flush tokens numBuilder) []
      else Inl (InvalidCharacter r))"

definition tokenize :: "unicode_tables \<Rightarrow> rune list \<Rightarrow> error + Token list" where
  "tokenize U input =
     (case tokenizeLoop U input [] [] of
        Inl e \<Rightarrow> Inl e
      | Inr (tokens, numBuilder) \<Rightarrow> Inr (flush tokens numBuilder))"

section \<open>Infix to postfix\<close>

text \<open>
  \<^verbatim>\<open>precedence := map[string]int{"+": 1, "-": 1, "*": 2, "/": 2}\<close>. Indexing a Go map
  with a key it does not hold gives the zero value of the value type, here 0.
\<close>

definition precedence :: "rune list \<rightharpoonup> int" where
  "precedence = [runes ''+'' \<mapsto> 1, runes ''-'' \<mapsto> 1, runes ''*'' \<mapsto> 2, runes ''/'' \<mapsto> 2]"

definition precedenceOf :: "rune list \<Rightarrow> int" where
  "precedenceOf k = (case precedence k of None \<Rightarrow> 0 | Some p \<Rightarrow> p)"

text \<open>
  A Go slice used as a stack grows at its end: \<^verbatim>\<open>append(stack, t)\<close> is \<open>stack @ [t]\<close>, the
  top \<^verbatim>\<open>stack[len(stack)-1]\<close> is \<open>last stack\<close> and \<^verbatim>\<open>stack[:len(stack)-1]\<close> is
  \<open>butlast stack\<close>. Every read of the top below is guarded by \<open>stack \<noteq> []\<close>, as in the code.

  The loop of the OPERATOR case: pop to the output while the top is an operator of
  precedence greater than or equal to that of the incoming token.
\<close>

function popOperators :: "Token \<Rightarrow> Token list \<Rightarrow> Token list \<Rightarrow> Token list \<times> Token list" where
  "popOperators token stack output =
     (if length stack > 0 \<and> Type (last stack) = OPERATOR
          \<and> precedenceOf (Value (last stack)) \<ge> precedenceOf (Value token)
      then popOperators token (butlast stack) (output @ [last stack])
      else (stack, output))"
  by pat_completeness auto
termination
  by (relation "measure (\<lambda>(token, stack, output). length stack)") auto

text \<open>The loop of the RPAREN case: pop to the output until the top is a left parenthesis.\<close>

function popUntilLParen :: "Token list \<Rightarrow> Token list \<Rightarrow> Token list \<times> Token list" where
  "popUntilLParen stack output =
     (if length stack > 0 \<and> Type (last stack) \<noteq> LPAREN
      then popUntilLParen (butlast stack) (output @ [last stack])
      else (stack, output))"
  by pat_completeness auto
termination
  by (relation "measure (\<lambda>(stack, output). length stack)") auto

text \<open>The loop after the tokens: pop what is left, failing on a left parenthesis.\<close>

function popRemaining :: "Token list \<Rightarrow> Token list \<Rightarrow> error + Token list" where
  "popRemaining stack output =
     (if length stack > 0 then
        (if Type (last stack) = LPAREN then Inl MismatchedParentheses
         else popRemaining (butlast stack) (output @ [last stack]))
      else Inr output)"
  by pat_completeness auto
termination
  by (relation "measure (\<lambda>(stack, output). length stack)") auto

declare popOperators.simps [simp del]
declare popUntilLParen.simps [simp del]
declare popRemaining.simps [simp del]

text \<open>
  The loop over the tokens, with the state \<open>(stack, output)\<close>. The \<^verbatim>\<open>switch\<close> has no
  default case: a token of any other type is skipped.
\<close>

fun toPostfixLoop :: "Token list \<Rightarrow> Token list \<Rightarrow> Token list \<Rightarrow> error + (Token list \<times> Token list)" where
  "toPostfixLoop [] stack output = Inr (stack, output)"
| "toPostfixLoop (token # tokens) stack output =
     (if Type token = NUMBER then
        toPostfixLoop tokens stack (output @ [token])
      else if Type token = OPERATOR then
        (case popOperators token stack output of
           (stack', output') \<Rightarrow> toPostfixLoop tokens (stack' @ [token]) output')
      else if Type token = LPAREN then
        toPostfixLoop tokens (stack @ [token]) output
      else if Type token = RPAREN then
        (case popUntilLParen stack output of
           (stack', output') \<Rightarrow>
             if length stack' = 0 \<or> Type (last stack') \<noteq> LPAREN
             then Inl MismatchedParentheses
             else toPostfixLoop tokens (butlast stack') output')
      else toPostfixLoop tokens stack output)"

definition toPostfix :: "Token list \<Rightarrow> error + Token list" where
  "toPostfix tokens =
     (case toPostfixLoop tokens [] [] of
        Inl e \<Rightarrow> Inl e
      | Inr (stack, output) \<Rightarrow> popRemaining stack output)"

section \<open>The type float64\<close>

text \<open>
  An IEEE 754 binary64 value: \<open>Finite s m e\<close> is \<open>(-1)\<^sup>s * m * 2\<^sup>e\<close> with \<open>m < 2\<^sup>5\<^sup>3\<close> and
  \<open>-1074 \<le> e \<le> 971\<close>, in the one form where \<open>2\<^sup>5\<^sup>2 \<le> m\<close> or \<open>e = -1074\<close> (so a zero is
  \<open>Finite s 0 (-1074)\<close>, of either sign); the infinities; and one NaN, the program never
  looking at a payload.
\<close>

datatype float64 = Finite bool int int | Infinity bool | NaN

definition valof :: "float64 \<Rightarrow> real" where
  "valof x =
     (case x of
        Finite s m e \<Rightarrow>
          (if s then - 1 else 1) * real_of_int m * (if e \<ge> 0 then 2 ^ nat e else 1 / 2 ^ nat (- e))
      | _ \<Rightarrow> 0)"

text \<open>\<open>n / d\<close> rounded to the nearest integer, a tie to the even one (\<open>0 \<le> n\<close>, \<open>0 < d\<close>).\<close>

definition roundHalfEven :: "int \<Rightarrow> int \<Rightarrow> int" where
  "roundHalfEven n d =
     (let q = n div d; r = n mod d
      in if 2 * r < d then q else if 2 * r > d then q + 1 else if even q then q else q + 1)"

text \<open>\<open>\<lfloor>log\<^sub>2 (n / d)\<rfloor>\<close> for \<open>0 < n\<close> and \<open>0 < d\<close>: it is \<open>t\<close> or \<open>t - 1\<close> for the difference \<open>t\<close> of the bit lengths.\<close>

definition floorLog2 :: "int \<Rightarrow> int \<Rightarrow> int" where
  "floorLog2 n d =
     (let t = bitlen n - bitlen d
      in if (if t \<ge> 0 then n \<ge> d * 2 ^ nat t else n * 2 ^ nat (- t) \<ge> d) then t else t - 1)"

text \<open>
  The float64 nearest to \<open>(-1)\<^sup>s * (n / d) * 2\<^sup>x\<close> for \<open>0 < n\<close> and \<open>0 < d\<close>, round to nearest,
  ties to even: the last place \<open>e\<close> is 52 binary places under the leading bit and not under
  \<open>-1074\<close> (subnormal results), the significand is rounded there, a carry to \<open>2\<^sup>5\<^sup>3\<close> moves up
  one place, and a result past the largest exponent is an infinity.
\<close>

definition roundFloat64 :: "bool \<Rightarrow> int \<Rightarrow> int \<Rightarrow> int \<Rightarrow> float64" where
  "roundFloat64 s n d x =
     (let e = max (floorLog2 n d + x - 52) (- 1074);
          m = (if x \<ge> e then roundHalfEven (n * 2 ^ nat (x - e)) d
               else roundHalfEven n (d * 2 ^ nat (e - x)));
          m' = (if m = 2 ^ 53 then 2 ^ 52 else m);
          e' = (if m = 2 ^ 53 then e + 1 else e)
      in if e' > 971 then Infinity s else Finite s m' e')"

definition isZero :: "float64 \<Rightarrow> bool" where
  "isZero x = (case x of Finite s m e \<Rightarrow> m = 0 | _ \<Rightarrow> False)"

definition signOf :: "float64 \<Rightarrow> bool" where
  "signOf x = (case x of Finite s m e \<Rightarrow> s | Infinity s \<Rightarrow> s | NaN \<Rightarrow> False)"

definition zero64 :: "bool \<Rightarrow> float64" where
  "zero64 s = Finite s 0 (- 1074)"

fun fneg :: "float64 \<Rightarrow> float64" where
  "fneg (Finite s m e) = Finite (\<not> s) m e"
| "fneg (Infinity s) = Infinity (\<not> s)"
| "fneg NaN = NaN"

text \<open>
  The four operations of Go on \<^verbatim>\<open>float64\<close>: the exact result, rounded. An exact sum of
  zero is \<open>+0\<close> unless both terms are negative; a zero product or quotient has the sign of
  the exact one.
\<close>

fun fadd :: "float64 \<Rightarrow> float64 \<Rightarrow> float64" where
  "fadd NaN y = NaN"
| "fadd x NaN = NaN"
| "fadd (Infinity s) (Infinity t) = (if s = t then Infinity s else NaN)"
| "fadd (Infinity s) (Finite t m e) = Infinity s"
| "fadd (Finite s m e) (Infinity t) = Infinity t"
| "fadd (Finite s1 m1 e1) (Finite s2 m2 e2) =
     (let e = min e1 e2;
          v = (if s1 then - m1 else m1) * 2 ^ nat (e1 - e) + (if s2 then - m2 else m2) * 2 ^ nat (e2 - e)
      in if v = 0 then zero64 (s1 \<and> s2) else roundFloat64 (v < 0) \<bar>v\<bar> 1 e)"

definition fsub :: "float64 \<Rightarrow> float64 \<Rightarrow> float64" where
  "fsub x y = fadd x (fneg y)"

fun fmul :: "float64 \<Rightarrow> float64 \<Rightarrow> float64" where
  "fmul NaN y = NaN"
| "fmul x NaN = NaN"
| "fmul (Infinity s) y = (if isZero y then NaN else Infinity (s \<noteq> signOf y))"
| "fmul x (Infinity t) = (if isZero x then NaN else Infinity (signOf x \<noteq> t))"
| "fmul (Finite s1 m1 e1) (Finite s2 m2 e2) =
     (if m1 = 0 \<or> m2 = 0 then zero64 (s1 \<noteq> s2)
      else roundFloat64 (s1 \<noteq> s2) (m1 * m2) 1 (e1 + e2))"

fun fdiv :: "float64 \<Rightarrow> float64 \<Rightarrow> float64" where
  "fdiv NaN y = NaN"
| "fdiv x NaN = NaN"
| "fdiv (Infinity s) (Infinity t) = NaN"
| "fdiv (Infinity s) (Finite t m e) = Infinity (s \<noteq> t)"
| "fdiv (Finite s m e) (Infinity t) = zero64 (s \<noteq> t)"
| "fdiv (Finite s1 m1 e1) (Finite s2 m2 e2) =
     (if m2 = 0 then (if m1 = 0 then NaN else Infinity (s1 \<noteq> s2))
      else if m1 = 0 then zero64 (s1 \<noteq> s2)
      else roundFloat64 (s1 \<noteq> s2) m1 m2 (e1 - e2))"

subsection \<open>Number texts\<close>

text \<open>
  \<^verbatim>\<open>strconv.ParseFloat(s, 64)\<close> is a parameter of the evaluator below. This is the function
  on the texts a NUMBER token of \<^verbatim>\<open>tokenize\<close> can hold, which are made of digits and
  decimal points: a text with a rune other than \<^verbatim>\<open>0\<close> to \<^verbatim>\<open>9\<close> and \<^verbatim>\<open>.\<close>, with two points or
  with no digit is a syntax error, and the others denote the nearest float64 of their
  decimal value, or a range error when that is an infinity. (Signs, exponents, \<^verbatim>\<open>inf\<close>,
  \<^verbatim>\<open>nan\<close>, hexadecimal forms and underscores, which the library function reads too, need
  runes that no such text has.)
\<close>

definition isDecimalDigit :: "rune \<Rightarrow> bool" where
  "isDecimalDigit r = (48 \<le> r \<and> r \<le> 57)"

fun decimalValue :: "int \<Rightarrow> rune list \<Rightarrow> int" where
  "decimalValue acc [] = acc"
| "decimalValue acc (r # rs) = decimalValue (10 * acc + (r - 48)) rs"

definition convertDecimal :: "rune list \<Rightarrow> rune list \<Rightarrow> rune list \<Rightarrow> error + float64" where
  "convertDecimal s intPart fracPart =
     (let n = decimalValue 0 (intPart @ fracPart)
      in if n = 0 then Inr (zero64 False)
         else (case roundFloat64 False n (10 ^ length fracPart) 0 of
                 Infinity _ \<Rightarrow> Inl (NumberParseError ErrRange s)
               | x \<Rightarrow> Inr x))"

definition ParseFloat :: "rune list \<Rightarrow> error + float64" where
  "ParseFloat s =
     (let intPart = takeWhile isDecimalDigit s; rest = dropWhile isDecimalDigit s
      in case rest of
           [] \<Rightarrow> if intPart = [] then Inl (NumberParseError ErrSyntax s)
                 else convertDecimal s intPart []
         | c # fracPart \<Rightarrow>
             if c = of_char CHR ''.'' \<and> list_all isDecimalDigit fracPart
                \<and> (intPart \<noteq> [] \<or> fracPart \<noteq> [])
             then convertDecimal s intPart fracPart
             else Inl (NumberParseError ErrSyntax s))"

section \<open>Postfix evaluation\<close>

text \<open>
  One token of the loop of \<^verbatim>\<open>evaluatePostfix\<close>, on the operand stack. Neither \<^verbatim>\<open>switch\<close>
  has a default case: a token that is neither NUMBER nor OPERATOR leaves the stack as
  it is, and an OPERATOR whose text is none of the four pops its two operands and
  pushes nothing.
\<close>

definition evalStep ::
  "(rune list \<Rightarrow> error + float64) \<Rightarrow> Token \<Rightarrow> float64 list \<Rightarrow> error + float64 list"
where
  "evalStep parseFloat token stack =
     (if Type token = NUMBER then
        (case parseFloat (Value token) of
           Inl err \<Rightarrow> Inl err
         | Inr num \<Rightarrow> Inr (stack @ [num]))
      else if Type token = OPERATOR then
        (if length stack < 2 then Inl (InsufficientOperands (Value token))
         else
           (let b = stack ! (length stack - 1); a = stack ! (length stack - 2);
                stack' = take (length stack - 2) stack
            in if Value token = runes ''+'' then Inr (stack' @ [fadd a b])
               else if Value token = runes ''-'' then Inr (stack' @ [fsub a b])
               else if Value token = runes ''*'' then Inr (stack' @ [fmul a b])
               else if Value token = runes ''/'' then
                 (if isZero b then Inl DivisionByZero else Inr (stack' @ [fdiv a b]))
               else Inr stack'))
      else Inr stack)"

fun evalLoop ::
  "(rune list \<Rightarrow> error + float64) \<Rightarrow> Token list \<Rightarrow> float64 list \<Rightarrow> error + float64 list"
where
  "evalLoop parseFloat [] stack = Inr stack"
| "evalLoop parseFloat (token # tokens) stack =
     (case evalStep parseFloat token stack of
        Inl err \<Rightarrow> Inl err
      | Inr stack' \<Rightarrow> evalLoop parseFloat tokens stack')"

definition evaluatePostfix ::
  "(rune list \<Rightarrow> error + float64) \<Rightarrow> Token list \<Rightarrow> error + float64"
where
  "evaluatePostfix parseFloat tokens =
     (case evalLoop parseFloat tokens [] of
        Inl err \<Rightarrow> Inl err
      | Inr stack \<Rightarrow> if length stack \<noteq> 1 then Inl InvalidExpression else Inr (stack ! 0))"

section \<open>The pipeline\<close>

definition calculate ::
  "unicode_tables \<Rightarrow> (rune list \<Rightarrow> error + float64) \<Rightarrow> rune list \<Rightarrow> error + float64"
where
  "calculate U parseFloat input =
     (case tokenize U input of
        Inl err \<Rightarrow> Inl err
      | Inr tokens \<Rightarrow>
          (case toPostfix tokens of
             Inl err \<Rightarrow> Inl err
           | Inr postfix \<Rightarrow> evaluatePostfix parseFloat postfix))"

section \<open>Notions of the specification\<close>

text \<open>
  The tables used where an example has to be closed: \<^verbatim>\<open>White_Space\<close> above Latin-1, and
  of \<^verbatim>\<open>Digit\<close> the Arabic-Indic digits only.
\<close>

definition exampleTables :: unicode_tables where
  "exampleTables =
     \<lparr>Digit = (\<lambda>r. 1632 \<le> r \<and> r \<le> 1641),
      White_Space = (\<lambda>r. r = 5760 \<or> (8192 \<le> r \<and> r \<le> 8202) \<or> r = 8232 \<or> r = 8233
                            \<or> r = 8239 \<or> r = 8287 \<or> r = 12288)\<rparr>"

text \<open>The test of the OPERATOR loop: the stacked token \<open>tp\<close> goes to the output before \<open>token\<close> is pushed.\<close>

definition popsBefore :: "Token \<Rightarrow> Token \<Rightarrow> bool" where
  "popsBefore token tp =
     (Type tp = OPERATOR \<and> precedenceOf (Value tp) \<ge> precedenceOf (Value token))"

text \<open>The left parentheses on an operator stack.\<close>

definition openParens :: "Token list \<Rightarrow> nat" where
  "openParens stack = length (filter (\<lambda>t. Type t = LPAREN) stack)"

text \<open>
  Balanced parentheses, on the token sequence alone: the depth goes up at a left
  parenthesis and down at a right one, never under zero, and ends at zero.
\<close>

fun parenDepth :: "Token list \<Rightarrow> nat \<Rightarrow> nat option" where
  "parenDepth [] d = Some d"
| "parenDepth (t # ts) d =
     (if Type t = LPAREN then parenDepth ts (Suc d)
      else if Type t = RPAREN then (case d of 0 \<Rightarrow> None | Suc d' \<Rightarrow> parenDepth ts d')
      else parenDepth ts d)"

definition balancedParens :: "Token list \<Rightarrow> bool" where
  "balancedParens ts = (parenDepth ts 0 = Some 0)"

text \<open>What the operator stack of the converter holds, and what its output holds.\<close>

definition isStackToken :: "Token \<Rightarrow> bool" where
  "isStackToken t = (Type t = OPERATOR \<or> Type t = LPAREN)"

definition isPostfixToken :: "Token \<Rightarrow> bool" where
  "isPostfixToken t = (Type t = NUMBER \<or> Type t = OPERATOR)"

abbreviation (input) num :: "rune list \<Rightarrow> Token" where
  "num v \<equiv> \<lparr>Type = NUMBER, Value = v\<rparr>"

abbreviation (input) opr :: "rune list \<Rightarrow> Token" where
  "opr v \<equiv> \<lparr>Type = OPERATOR, Value = v\<rparr>"

text \<open>
  The runes of a number text, the runes \<^verbatim>\<open>tokenize\<close> has a case for, and the tokens it
  makes.
\<close>

definition numberRune :: "unicode_tables \<Rightarrow> rune \<Rightarrow> bool" where
  "numberRune U r = (IsDigit U r \<or> r = of_char CHR ''.'')"

definition acceptedRune :: "unicode_tables \<Rightarrow> rune \<Rightarrow> bool" where
  "acceptedRune U r =
     (IsDigit U r \<or> r = of_char CHR ''.'' \<or> isOperatorRune r
      \<or> r = of_char CHR ''('' \<or> r = of_char CHR '')'' \<or> IsSpace U r)"

definition numberText :: "unicode_tables \<Rightarrow> rune list \<Rightarrow> bool" where
  "numberText U v = (v \<noteq> [] \<and> (\<forall>r \<in> set v. numberRune U r))"

definition tokenizerToken :: "unicode_tables \<Rightarrow> Token \<Rightarrow> bool" where
  "tokenizerToken U t =
     ((Type t = NUMBER \<and> numberText U (Value t))
      \<or> (Type t = OPERATOR \<and> (\<exists>r. Value t = [r] \<and> isOperatorRune r))
      \<or> (Type t = LPAREN \<and> Value t = runes ''('')
      \<or> (Type t = RPAREN \<and> Value t = runes '')''))"

text \<open>
  The expressions of the standard grammar, in which \<open>*\<close> and \<open>/\<close> bind tighter than \<open>+\<close>
  and \<open>-\<close>, all four associate to the left and parentheses group:
  \<^verbatim>\<open>E ::= E (+|-) T | T\<close>, \<^verbatim>\<open>T ::= T (*|/) F | F\<close>, \<^verbatim>\<open>F ::= number | ( E )\<close>.
  An expression has its infix tokens, its text (the tokens written with no space), its
  postfix tokens and its value: the operands from left to right, then the operator, the
  first error met being the result.
\<close>

datatype addop = Plus | Minus

datatype mulop = Times | Divide

datatype expression = Term termExp | AddSub expression addop termExp
  and termExp = Factor factorExp | MulDiv termExp mulop factorExp
  and factorExp = Number "rune list" | Group expression

fun addText :: "addop \<Rightarrow> rune list" where
  "addText Plus = runes ''+''"
| "addText Minus = runes ''-''"

fun mulText :: "mulop \<Rightarrow> rune list" where
  "mulText Times = runes ''*''"
| "mulText Divide = runes ''/''"

fun tokensE :: "expression \<Rightarrow> Token list"
  and tokensT :: "termExp \<Rightarrow> Token list"
  and tokensF :: "factorExp \<Rightarrow> Token list"
where
  "tokensE (Term t) = tokensT t"
| "tokensE (AddSub e p t) = tokensE e @ [opr (addText p)] @ tokensT t"
| "tokensT (Factor f) = tokensF f"
| "tokensT (MulDiv t p f) = tokensT t @ [opr (mulText p)] @ tokensF f"
| "tokensF (Number v) = [num v]"
| "tokensF (Group e) =
     [\<lparr>Type = LPAREN, Value = runes ''(''\<rparr>] @ tokensE e @ [\<lparr>Type = RPAREN, Value = runes '')''\<rparr>]"

fun postfixE :: "expression \<Rightarrow> Token list"
  and postfixT :: "termExp \<Rightarrow> Token list"
  and postfixF :: "factorExp \<Rightarrow> Token list"
where
  "postfixE (Term t) = postfixT t"
| "postfixE (AddSub e p t) = postfixE e @ postfixT t @ [opr (addText p)]"
| "postfixT (Factor f) = postfixF f"
| "postfixT (MulDiv t p f) = postfixT t @ postfixF f @ [opr (mulText p)]"
| "postfixF (Number v) = [num v]"
| "postfixF (Group e) = postfixE e"

fun valueE :: "(rune list \<Rightarrow> error + float64) \<Rightarrow> expression \<Rightarrow> error + float64"
  and valueT :: "(rune list \<Rightarrow> error + float64) \<Rightarrow> termExp \<Rightarrow> error + float64"
  and valueF :: "(rune list \<Rightarrow> error + float64) \<Rightarrow> factorExp \<Rightarrow> error + float64"
where
  "valueE parseFloat (Term t) = valueT parseFloat t"
| "valueE parseFloat (AddSub e p t) =
     (case valueE parseFloat e of
        Inl err \<Rightarrow> Inl err
      | Inr a \<Rightarrow>
          (case valueT parseFloat t of
             Inl err \<Rightarrow> Inl err
           | Inr b \<Rightarrow> (case p of Plus \<Rightarrow> Inr (fadd a b) | Minus \<Rightarrow> Inr (fsub a b))))"
| "valueT parseFloat (Factor f) = valueF parseFloat f"
| "valueT parseFloat (MulDiv t p f) =
     (case valueT parseFloat t of
        Inl err \<Rightarrow> Inl err
      | Inr a \<Rightarrow>
          (case valueF parseFloat f of
             Inl err \<Rightarrow> Inl err
           | Inr b \<Rightarrow>
               (case p of
                  Times \<Rightarrow> Inr (fmul a b)
                | Divide \<Rightarrow> if isZero b then Inl DivisionByZero else Inr (fdiv a b))))"
| "valueF parseFloat (Number v) = parseFloat v"
| "valueF parseFloat (Group e) = valueE parseFloat e"

text \<open>
  What the converter still holds on its stack after the tokens of a term or an
  expression, and what it has put out by then.
\<close>

fun pendingT :: "termExp \<Rightarrow> Token list" where
  "pendingT (Factor f) = []"
| "pendingT (MulDiv t p f) = [opr (mulText p)]"

fun emittedT :: "termExp \<Rightarrow> Token list" where
  "emittedT (Factor f) = postfixF f"
| "emittedT (MulDiv t p f) = postfixT t @ postfixF f"

fun pendingE :: "expression \<Rightarrow> Token list" where
  "pendingE (Term t) = pendingT t"
| "pendingE (AddSub e p t) = opr (addText p) # pendingT t"

fun emittedE :: "expression \<Rightarrow> Token list" where
  "emittedE (Term t) = emittedT t"
| "emittedE (AddSub e p t) = postfixE e @ emittedT t"

text \<open>A stack from which an incoming operator of precedence \<open>n\<close> pops nothing.\<close>

definition topBelow :: "int \<Rightarrow> Token list \<Rightarrow> bool" where
  "topBelow n stack =
     (stack = [] \<or> Type (last stack) \<noteq> OPERATOR \<or> precedenceOf (Value (last stack)) < n)"

fun textE :: "expression \<Rightarrow> rune list"
  and textT :: "termExp \<Rightarrow> rune list"
  and textF :: "factorExp \<Rightarrow> rune list"
where
  "textE (Term t) = textT t"
| "textE (AddSub e p t) = textE e @ addText p @ textT t"
| "textT (Factor f) = textF f"
| "textT (MulDiv t p f) = textT t @ mulText p @ textF f"
| "textF (Number v) = v"
| "textF (Group e) = runes ''('' @ textE e @ runes '')''"

fun numbersE :: "expression \<Rightarrow> rune list list"
  and numbersT :: "termExp \<Rightarrow> rune list list"
  and numbersF :: "factorExp \<Rightarrow> rune list list"
where
  "numbersE (Term t) = numbersT t"
| "numbersE (AddSub e p t) = numbersE e @ numbersT t"
| "numbersT (Factor f) = numbersF f"
| "numbersT (MulDiv t p f) = numbersT t @ numbersF f"
| "numbersF (Number v) = [v]"
| "numbersF (Group e) = numbersE e"

abbreviation (input) literal :: "string \<Rightarrow> termExp" where
  "literal s \<equiv> Factor (Number (runes s))"

section \<open>Properties of the converter\<close>

lemmas token_types = NUMBER_def OPERATOR_def LPAREN_def RPAREN_def

subsection \<open>The three popping loops in closed form\<close>

lemma popOperators_snoc:
  "popOperators token (stack @ [tp]) out =
     (if popsBefore token tp then popOperators token stack (out @ [tp]) else (stack @ [tp], out))"
  by (subst popOperators.simps) (simp add: popsBefore_def)

lemma popOperators_Nil: "popOperators token [] out = ([], out)"
  by (subst popOperators.simps) simp

lemma popOperators_eq:
  "popOperators token stack out =
     (rev (dropWhile (popsBefore token) (rev stack)), out @ takeWhile (popsBefore token) (rev stack))"
  by (induction stack arbitrary: out rule: rev_induct)
     (simp_all add: popOperators_Nil popOperators_snoc)

lemma popUntilLParen_snoc:
  "popUntilLParen (stack @ [tp]) out =
     (if Type tp \<noteq> LPAREN then popUntilLParen stack (out @ [tp]) else (stack @ [tp], out))"
  by (subst popUntilLParen.simps) simp

lemma popUntilLParen_Nil: "popUntilLParen [] out = ([], out)"
  by (subst popUntilLParen.simps) simp

lemma popUntilLParen_eq:
  "popUntilLParen stack out =
     (rev (dropWhile (\<lambda>t. Type t \<noteq> LPAREN) (rev stack)),
      out @ takeWhile (\<lambda>t. Type t \<noteq> LPAREN) (rev stack))"
  by (induction stack arbitrary: out rule: rev_induct)
     (simp_all add: popUntilLParen_Nil popUntilLParen_snoc)

lemma popRemaining_snoc:
  "popRemaining (stack @ [tp]) out =
     (if Type tp = LPAREN then Inl MismatchedParentheses else popRemaining stack (out @ [tp]))"
  by (subst popRemaining.simps) simp

lemma popRemaining_Nil: "popRemaining [] out = Inr out"
  by (subst popRemaining.simps) simp

lemma popRemaining_eq:
  "popRemaining stack out =
     (if \<exists>t \<in> set stack. Type t = LPAREN then Inl MismatchedParentheses else Inr (out @ rev stack))"
  by (induction stack arbitrary: out rule: rev_induct)
     (auto simp: popRemaining_Nil popRemaining_snoc)


subsection \<open>The stack holds as many left parentheses as are open\<close>

lemma openParens_simps [simp]:
  "openParens [] = 0"
  "openParens (xs @ ys) = openParens xs + openParens ys"
  "openParens (t # ts) = (if Type t = LPAREN then Suc (openParens ts) else openParens ts)"
  "openParens (rev xs) = openParens xs"
  by (simp_all add: openParens_def flip: rev_filter)

lemma openParens_zero_iff: "openParens xs = 0 \<longleftrightarrow> (\<forall>t \<in> set xs. Type t \<noteq> LPAREN)"
  by (induction xs) auto

lemma openParens_takeWhile_pops [simp]:
  "openParens (takeWhile (popsBefore token) xs) = 0"
  by (induction xs) (auto simp: popsBefore_def token_types)

lemma openParens_dropWhile_pops [simp]:
  "openParens (dropWhile (popsBefore token) xs) = openParens xs"
  by (induction xs) (auto simp: popsBefore_def token_types)

lemma openParens_dropWhile_notL [simp]:
  "openParens (dropWhile (\<lambda>t. Type t \<noteq> LPAREN) xs) = openParens xs"
  by (induction xs) auto

lemma dropWhile_notL_Nil_iff:
  "dropWhile (\<lambda>t. Type t \<noteq> LPAREN) xs = [] \<longleftrightarrow> openParens xs = 0"
  by (induction xs) auto

lemma hd_dropWhile_notL:
  "dropWhile (\<lambda>t. Type t \<noteq> LPAREN) xs \<noteq> [] \<Longrightarrow> Type (hd (dropWhile (\<lambda>t. Type t \<noteq> LPAREN) xs)) = LPAREN"
  using hd_dropWhile [of "\<lambda>t. Type t \<noteq> LPAREN" xs] by simp

text \<open>The state after the RPAREN case, or its failure, from the stack read top first.\<close>

lemma rparen_fails_iff:
  "(length (fst (popUntilLParen stack out)) = 0 \<or> Type (last (fst (popUntilLParen stack out))) \<noteq> LPAREN)
     \<longleftrightarrow> openParens stack = 0"
proof (cases "dropWhile (\<lambda>t. Type t \<noteq> LPAREN) (rev stack) = []")
  case True
  then show ?thesis
    using dropWhile_notL_Nil_iff [of "rev stack"] by (simp add: popUntilLParen_eq)
next
  case False
  then have "Type (hd (dropWhile (\<lambda>t. Type t \<noteq> LPAREN) (rev stack))) = LPAREN"
    by (rule hd_dropWhile_notL)
  with False show ?thesis
    using dropWhile_notL_Nil_iff [of "rev stack"]
    by (simp add: popUntilLParen_eq last_rev)
qed

lemma rparen_openParens:
  "openParens stack \<noteq> 0 \<Longrightarrow>
   Suc (openParens (butlast (fst (popUntilLParen stack out)))) = openParens stack"
proof -
  assume a: "openParens stack \<noteq> 0"
  let ?D = "dropWhile (\<lambda>t. Type t \<noteq> LPAREN) (rev stack)"
  from a have ne: "?D \<noteq> []"
    using dropWhile_notL_Nil_iff [of "rev stack"] by simp
  then have L: "Type (hd ?D) = LPAREN" by (rule hd_dropWhile_notL)
  from ne have "?D = hd ?D # tl ?D" by simp
  then have "openParens ?D = Suc (openParens (tl ?D))"
    using L by (metis openParens_simps(3))
  moreover have "butlast (rev ?D) = rev (tl ?D)"
    by simp
  ultimately show ?thesis
    by (simp add: popUntilLParen_eq)
qed

lemma toPostfixLoop_depth:
  "(case toPostfixLoop ts stack out of
      Inl e \<Rightarrow> e = MismatchedParentheses \<and> parenDepth ts (openParens stack) = None
    | Inr (stack', out') \<Rightarrow> parenDepth ts (openParens stack) = Some (openParens stack'))"
proof (induction ts arbitrary: stack out)
  case Nil
  show ?case by simp
next
  case (Cons t ts)
  consider (num) "Type t = NUMBER" | (op) "Type t = OPERATOR" | (lp) "Type t = LPAREN"
    | (rp) "Type t = RPAREN"
    | (other) "Type t \<noteq> NUMBER" "Type t \<noteq> OPERATOR" "Type t \<noteq> LPAREN" "Type t \<noteq> RPAREN"
    by blast
  then show ?case
  proof cases
    case num
    then show ?thesis
      using Cons.IH [of stack "out @ [t]"] by (simp add: token_types split: sum.splits prod.splits)
  next
    case op
    then show ?thesis
      using Cons.IH [of "rev (dropWhile (popsBefore t) (rev stack)) @ [t]"
                        "out @ takeWhile (popsBefore t) (rev stack)"]
      by (simp add: token_types popOperators_eq split: sum.splits prod.splits)
  next
    case lp
    then show ?thesis
      using Cons.IH [of "stack @ [t]" out] by (simp add: token_types split: sum.splits prod.splits)
  next
    case rp
    obtain s' o' where p: "popUntilLParen stack out = (s', o')"
      by fastforce
    have f: "(length s' = 0 \<or> Type (last s') \<noteq> LPAREN) \<longleftrightarrow> openParens stack = 0"
      using rparen_fails_iff [of stack out] p by simp
    show ?thesis
    proof (cases "openParens stack = 0")
      case True
      with f have "length s' = 0 \<or> Type (last s') \<noteq> LPAREN" by simp
      then have "toPostfixLoop (t # ts) stack out = Inl MismatchedParentheses"
        using rp p by (simp add: token_types)
      moreover have "parenDepth (t # ts) (openParens stack) = None"
        using rp True by (simp add: token_types)
      ultimately show ?thesis by simp
    next
      case False
      then obtain d where d: "openParens stack = Suc d"
        by (cases "openParens stack") auto
      have e3: "openParens (butlast s') = d"
        using rparen_openParens [of stack out] False d p by simp
      from f False have "\<not> (length s' = 0 \<or> Type (last s') \<noteq> LPAREN)" by simp
      then have e1: "toPostfixLoop (t # ts) stack out = toPostfixLoop ts (butlast s') o'"
        using rp p by (simp add: token_types)
      have e2: "parenDepth (t # ts) (openParens stack) = parenDepth ts d"
        using rp d by (simp add: token_types)
      show ?thesis
        unfolding e1 e2 using Cons.IH [of "butlast s'" o'] unfolding e3 .
    qed
  next
    case other
    then show ?thesis
      using Cons.IH [of stack out] by (simp split: sum.splits prod.splits)
  qed
qed

lemma toPostfix_error_iff:
  "toPostfix ts = Inl MismatchedParentheses \<longleftrightarrow> \<not> balancedParens ts"
  using toPostfixLoop_depth [of ts "[]" "[]"]
  by (auto simp: toPostfix_def balancedParens_def popRemaining_eq openParens_zero_iff
           split: sum.splits prod.splits)

lemma toPostfix_error_kind:
  "toPostfix ts = Inl e \<Longrightarrow> e = MismatchedParentheses"
  using toPostfixLoop_depth [of ts "[]" "[]"]
  by (auto simp: toPostfix_def popRemaining_eq split: sum.splits prod.splits if_splits)


text \<open>
  C5. \<^verbatim>\<open>toPostfix\<close> fails exactly when the parentheses of its tokens are not balanced, and
  then with MismatchedParentheses, its only error: a right parenthesis met with no left
  parenthesis on the stack fails, and so does a left parenthesis left on the stack at the
  end. Hence \<^verbatim>\<open>calculate("(1 + 2")\<close> and \<^verbatim>\<open>calculate("1 + 2)")\<close> fail with
  MismatchedParentheses.
\<close>

theorem toPostfix_mismatched_iff_unbalanced:
  "(toPostfix tokens = Inl MismatchedParentheses \<longleftrightarrow> \<not> balancedParens tokens)
   \<and> (\<forall>e. toPostfix tokens = Inl e \<longrightarrow> e = MismatchedParentheses)
   \<and> (\<forall>t ts stack out. Type t = RPAREN \<and> openParens stack = 0 \<longrightarrow>
         toPostfixLoop (t # ts) stack out = Inl MismatchedParentheses)
   \<and> (\<forall>stack out. popRemaining stack out = Inl MismatchedParentheses
         \<longleftrightarrow> (\<exists>t \<in> set stack. Type t = LPAREN))
   \<and> calculate U parseFloat (runes ''(1 + 2'') = Inl MismatchedParentheses
   \<and> calculate U parseFloat (runes ''1 + 2)'') = Inl MismatchedParentheses"
proof -
  have step: "toPostfixLoop (t # ts) stack out = Inl MismatchedParentheses"
    if "Type t = RPAREN" "openParens stack = 0" for t ts stack out
  proof -
    obtain s' o' where p: "popUntilLParen stack out = (s', o')"
      by fastforce
    then have "length s' = 0 \<or> Type (last s') \<noteq> LPAREN"
      using rparen_fails_iff [of stack out] that by simp
    then show ?thesis
      using that p by (simp add: token_types)
  qed
  have c1: "calculate U parseFloat (runes ''(1 + 2'') = Inl MismatchedParentheses"
    by code_simp
  have c2: "calculate U parseFloat (runes ''1 + 2)'') = Inl MismatchedParentheses"
    by code_simp
  show ?thesis
    using toPostfix_error_iff [of tokens] toPostfix_error_kind [of tokens] step c1 c2
    by (simp add: popRemaining_eq)
qed

theorem toPostfix_mismatched_iff_unbalanced_witness:
  "\<not> balancedParens [\<lparr>Type = NUMBER, Value = runes ''1''\<rparr>, \<lparr>Type = RPAREN, Value = runes '')''\<rparr>]
   \<and> toPostfix [\<lparr>Type = NUMBER, Value = runes ''1''\<rparr>, \<lparr>Type = RPAREN, Value = runes '')''\<rparr>]
       = Inl MismatchedParentheses
   \<and> toPostfixLoop [\<lparr>Type = RPAREN, Value = runes '')''\<rparr>] [] [] = Inl MismatchedParentheses
   \<and> popRemaining [\<lparr>Type = LPAREN, Value = runes ''(''\<rparr>] [] = Inl MismatchedParentheses"
proof -
  have b: "\<not> balancedParens [\<lparr>Type = NUMBER, Value = runes ''1''\<rparr>, \<lparr>Type = RPAREN, Value = runes '')''\<rparr>]"
    by (simp add: balancedParens_def token_types)
  have r: "Type \<lparr>Type = RPAREN, Value = runes '')''\<rparr> = RPAREN \<and> openParens [] = 0"
    by (simp add: openParens_def)
  have l: "\<exists>t \<in> set [\<lparr>Type = LPAREN, Value = runes ''(''\<rparr>]. Type t = LPAREN"
    by simp
  note inst = toPostfix_mismatched_iff_unbalanced
    [of "[\<lparr>Type = NUMBER, Value = runes ''1''\<rparr>, \<lparr>Type = RPAREN, Value = runes '')''\<rparr>]"
        exampleTables ParseFloat]
  from inst b have 1: "toPostfix [\<lparr>Type = NUMBER, Value = runes ''1''\<rparr>, \<lparr>Type = RPAREN, Value = runes '')''\<rparr>]
       = Inl MismatchedParentheses"
    by blast
  from inst r have 2: "toPostfixLoop [\<lparr>Type = RPAREN, Value = runes '')''\<rparr>] [] [] = Inl MismatchedParentheses"
    by blast
  from inst l have 3: "popRemaining [\<lparr>Type = LPAREN, Value = runes ''(''\<rparr>] [] = Inl MismatchedParentheses"
    by blast
  from b 1 2 3 show ?thesis by blast
qed

subsection \<open>Only numbers and operators reach the output\<close>

lemma toPostfixLoop_kinds:
  "\<forall>t \<in> set stack. isStackToken t \<Longrightarrow> \<forall>t \<in> set out. isPostfixToken t \<Longrightarrow>
   toPostfixLoop ts stack out = Inr (stack', out') \<Longrightarrow>
   (\<forall>t \<in> set stack'. isStackToken t) \<and> (\<forall>t \<in> set out'. isPostfixToken t)"
proof (induction ts arbitrary: stack out)
  case Nil
  then show ?case by simp
next
  case (Cons t ts)
  consider (num) "Type t = NUMBER" | (op) "Type t = OPERATOR" | (lp) "Type t = LPAREN"
    | (rp) "Type t = RPAREN"
    | (other) "Type t \<noteq> NUMBER" "Type t \<noteq> OPERATOR" "Type t \<noteq> LPAREN" "Type t \<noteq> RPAREN"
    by blast
  then show ?case
  proof cases
    case num
    then have "toPostfixLoop ts stack (out @ [t]) = Inr (stack', out')"
      using Cons.prems(3) by simp
    moreover have "\<forall>x \<in> set (out @ [t]). isPostfixToken x"
      using Cons.prems(2) num by (simp add: isPostfixToken_def)
    ultimately show ?thesis
      using Cons.IH [of stack "out @ [t]"] Cons.prems(1) by blast
  next
    case op
    let ?s = "rev (dropWhile (popsBefore t) (rev stack)) @ [t]"
    let ?o = "out @ takeWhile (popsBefore t) (rev stack)"
    from op have "toPostfixLoop ts ?s ?o = Inr (stack', out')"
      using Cons.prems(3) by (simp add: token_types popOperators_eq)
    moreover have "\<forall>x \<in> set ?s. isStackToken x"
      using Cons.prems(1) op by (auto simp: isStackToken_def dest!: set_dropWhileD)
    moreover have "\<forall>x \<in> set ?o. isPostfixToken x"
      using Cons.prems(2) by (auto simp: isPostfixToken_def popsBefore_def dest: set_takeWhileD)
    ultimately show ?thesis
      using Cons.IH [of ?s ?o] by blast
  next
    case lp
    then have "toPostfixLoop ts (stack @ [t]) out = Inr (stack', out')"
      using Cons.prems(3) by (simp add: token_types)
    moreover have "\<forall>x \<in> set (stack @ [t]). isStackToken x"
      using Cons.prems(1) lp by (simp add: isStackToken_def)
    ultimately show ?thesis
      using Cons.IH [of "stack @ [t]" out] Cons.prems(2) by blast
  next
    case rp
    let ?D = "dropWhile (\<lambda>t. Type t \<noteq> LPAREN) (rev stack)"
    let ?o = "out @ takeWhile (\<lambda>t. Type t \<noteq> LPAREN) (rev stack)"
    from rp have "toPostfixLoop ts (butlast (rev ?D)) ?o = Inr (stack', out')"
      using Cons.prems(3) by (simp add: token_types popUntilLParen_eq split: if_splits)
    moreover have "\<forall>x \<in> set (butlast (rev ?D)). isStackToken x"
    proof
      fix x
      assume "x \<in> set (butlast (rev ?D))"
      then have "x \<in> set (rev ?D)" by (rule in_set_butlastD)
      then have "x \<in> set ?D" by simp
      then have "x \<in> set (rev stack)" by (rule set_dropWhileD)
      then show "isStackToken x" using Cons.prems(1) by simp
    qed
    moreover have "\<forall>x \<in> set ?o. isPostfixToken x"
      using Cons.prems(1,2)
      by (auto simp: isPostfixToken_def isStackToken_def dest!: set_takeWhileD)
    ultimately show ?thesis
      using Cons.IH [of "butlast (rev ?D)" ?o] by blast
  next
    case other
    then have "toPostfixLoop ts stack out = Inr (stack', out')"
      using Cons.prems(3) by simp
    then show ?thesis
      using Cons.IH [of stack out] Cons.prems(1,2) by blast
  qed
qed


text \<open>
  C10. When \<^verbatim>\<open>toPostfix\<close> succeeds, every token of the postfix sequence is a NUMBER or an
  OPERATOR, none a left or right parenthesis: the evaluator's switch has a case for
  every token it receives.
\<close>

theorem toPostfix_output_kinds:
  "toPostfix tokens = Inr postfix \<Longrightarrow>
   \<forall>t \<in> set postfix. (Type t = NUMBER \<or> Type t = OPERATOR) \<and> Type t \<noteq> LPAREN \<and> Type t \<noteq> RPAREN"
proof -
  assume a: "toPostfix tokens = Inr postfix"
  then obtain stack out where l: "toPostfixLoop tokens [] [] = Inr (stack, out)"
    and r: "popRemaining stack out = Inr postfix"
    by (auto simp: toPostfix_def split: sum.splits)
  from toPostfixLoop_kinds [OF _ _ l]
  have s: "\<forall>t \<in> set stack. isStackToken t" and o: "\<forall>t \<in> set out. isPostfixToken t"
    by simp_all
  from r have "postfix = out @ rev stack" and "\<forall>t \<in> set stack. Type t \<noteq> LPAREN"
    by (auto simp: popRemaining_eq split: if_splits)
  with s o show ?thesis
    by (auto simp: isStackToken_def isPostfixToken_def token_types)
qed


theorem toPostfix_output_kinds_witness:
  "toPostfix [\<lparr>Type = LPAREN, Value = runes ''(''\<rparr>, num (runes ''1''), \<lparr>Type = RPAREN, Value = runes '')''\<rparr>]
     = Inr [num (runes ''1'')]
   \<and> (Type (num (runes ''1'')) = NUMBER \<or> Type (num (runes ''1'')) = OPERATOR)
   \<and> Type (num (runes ''1'')) \<noteq> LPAREN \<and> Type (num (runes ''1'')) \<noteq> RPAREN"
proof -
  have e: "toPostfix [\<lparr>Type = LPAREN, Value = runes ''(''\<rparr>, num (runes ''1''), \<lparr>Type = RPAREN, Value = runes '')''\<rparr>]
     = Inr [num (runes ''1'')]"
    by code_simp
  have "(Type (num (runes ''1'')) = NUMBER \<or> Type (num (runes ''1'')) = OPERATOR)
     \<and> Type (num (runes ''1'')) \<noteq> LPAREN \<and> Type (num (runes ''1'')) \<noteq> RPAREN"
    using toPostfix_output_kinds [OF e, rule_format, of "num (runes ''1'')"] by simp
  with e show ?thesis by (intro conjI) simp_all
qed

subsection \<open>Two operators in a row of operands\<close>

lemma toPostfix_two_operators:
  "toPostfix [num a, opr p, num b, opr q, num c] =
     Inr (if precedenceOf p \<ge> precedenceOf q
          then [num a, num b, opr p, num c, opr q]
          else [num a, num b, num c, opr q, opr p])"
  by (simp add: toPostfix_def popOperators_eq popRemaining_eq popsBefore_def token_types)

lemma toPostfix_grouped:
  "toPostfix [\<lparr>Type = LPAREN, Value = l\<rparr>, num a, opr p, num b, \<lparr>Type = RPAREN, Value = r\<rparr>, opr q, num c] =
     Inr [num a, num b, opr p, num c, opr q]"
  by (simp add: toPostfix_def popOperators_eq popUntilLParen_eq popRemaining_eq popsBefore_def token_types)

lemma precedence_table:
  "precedenceOf (runes ''+'') = 1" "precedenceOf (runes ''-'') = 1"
  "precedenceOf (runes ''*'') = 2" "precedenceOf (runes ''/'') = 2"
  by (simp_all add: precedenceOf_def precedence_def runes_def)

lemma evalLoop_append:
  "evalLoop pf (xs @ ys) stack =
     (case evalLoop pf xs stack of Inl e \<Rightarrow> Inl e | Inr stack' \<Rightarrow> evalLoop pf ys stack')"
  by (induction xs arbitrary: stack) (simp_all split: sum.splits)

section \<open>Precedence and associativity\<close>

lemma valof_examples:
  "valof (Finite False 7881299347898368 (- 49)) = 14"
  "valof (Finite False 5629499534213120 (- 48)) = 20"
  "valof (Finite False 6755399441055744 (- 51)) = 3"
  "valof (Finite False 4503599627370496 (- 51)) = 2"
  by (simp_all add: valof_def)

subsection \<open>Left associativity\<close>

lemma evaluatePostfix_two_operators:
  "parseFloat a = Inr x \<and> parseFloat b = Inr y \<and> parseFloat c = Inr z \<longrightarrow>
   evaluatePostfix parseFloat [num a, num b, opr (runes ''-''), num c, opr (runes ''-'')]
     = Inr (fsub (fsub x y) z)
   \<and> evaluatePostfix parseFloat [num a, num b, opr (runes ''/''), num c, opr (runes ''/'')]
     = (if isZero y \<or> isZero z then Inl DivisionByZero else Inr (fdiv (fdiv x y) z))"
  by (simp add: evaluatePostfix_def evalStep_def token_types runes_def)

text \<open>
  C2. A stacked operator whose precedence is greater than or equal to that of the
  incoming operator is popped to the output first, so in \<open>a p b q c\<close> with \<open>p\<close> of at least
  the precedence of \<open>q\<close> (for one, \<open>p = q\<close>) the left operator is applied first, and the
  evaluator computes \<open>(a - b) - c\<close> and \<open>(a / b) / c\<close>. \<^verbatim>\<open>calculate("8 - 3 - 2")\<close> is 3 and
  \<^verbatim>\<open>calculate("16 / 4 / 2")\<close> is 2.
\<close>

theorem calculate_left_associative:
  "(\<forall>a b c p q. precedenceOf p \<ge> precedenceOf q \<longrightarrow>
      toPostfix [num a, opr p, num b, opr q, num c] = Inr [num a, num b, opr p, num c, opr q])
   \<and> (\<forall>token tp stack out.
        Type tp = OPERATOR \<and> precedenceOf (Value tp) \<ge> precedenceOf (Value token) \<longrightarrow>
        popOperators token (stack @ [tp]) out = popOperators token stack (out @ [tp]))
   \<and> (\<forall>parseFloat a b c x y z.
        parseFloat a = Inr x \<and> parseFloat b = Inr y \<and> parseFloat c = Inr z \<longrightarrow>
        evaluatePostfix parseFloat [num a, num b, opr (runes ''-''), num c, opr (runes ''-'')]
          = Inr (fsub (fsub x y) z)
        \<and> evaluatePostfix parseFloat [num a, num b, opr (runes ''/''), num c, opr (runes ''/'')]
          = (if isZero y \<or> isZero z then Inl DivisionByZero else Inr (fdiv (fdiv x y) z)))
   \<and> calculate U ParseFloat (runes ''8 - 3 - 2'') = Inr (Finite False 6755399441055744 (- 51))
   \<and> valof (Finite False 6755399441055744 (- 51)) = 3
   \<and> calculate U ParseFloat (runes ''16 / 4 / 2'') = Inr (Finite False 4503599627370496 (- 51))
   \<and> valof (Finite False 4503599627370496 (- 51)) = 2"
proof (intro conjI allI)
  show "calculate U ParseFloat (runes ''8 - 3 - 2'') = Inr (Finite False 6755399441055744 (- 51))"
    by code_simp
  show "calculate U ParseFloat (runes ''16 / 4 / 2'') = Inr (Finite False 4503599627370496 (- 51))"
    by code_simp
  show "valof (Finite False 6755399441055744 (- 51)) = 3"
    by (rule valof_examples)
  show "valof (Finite False 4503599627370496 (- 51)) = 2"
    by (rule valof_examples)
  show "precedenceOf p \<ge> precedenceOf q \<longrightarrow>
      toPostfix [num a, opr p, num b, opr q, num c] = Inr [num a, num b, opr p, num c, opr q]"
    for a b c p q
    by (simp add: toPostfix_two_operators)
  show "Type tp = OPERATOR \<and> precedenceOf (Value tp) \<ge> precedenceOf (Value token) \<longrightarrow>
        popOperators token (stack @ [tp]) out = popOperators token stack (out @ [tp])"
    for token tp stack out
    by (simp add: popOperators_snoc popsBefore_def)
  show "parseFloat a = Inr x \<and> parseFloat b = Inr y \<and> parseFloat c = Inr z \<longrightarrow>
        evaluatePostfix parseFloat [num a, num b, opr (runes ''-''), num c, opr (runes ''-'')]
          = Inr (fsub (fsub x y) z)
        \<and> evaluatePostfix parseFloat [num a, num b, opr (runes ''/''), num c, opr (runes ''/'')]
          = (if isZero y \<or> isZero z then Inl DivisionByZero else Inr (fdiv (fdiv x y) z))"
    for parseFloat a b c x y z
    by (rule evaluatePostfix_two_operators)
qed

theorem calculate_left_associative_witness:
  "precedenceOf (runes ''-'') \<ge> precedenceOf (runes ''-'')
   \<and> toPostfix [num (runes ''8''), opr (runes ''-''), num (runes ''3''), opr (runes ''-''), num (runes ''2'')]
       = Inr [num (runes ''8''), num (runes ''3''), opr (runes ''-''), num (runes ''2''), opr (runes ''-'')]
   \<and> popOperators (opr (runes ''-'')) ([] @ [opr (runes ''-'')]) [num (runes ''8''), num (runes ''3'')]
       = popOperators (opr (runes ''-'')) [] ([num (runes ''8''), num (runes ''3'')] @ [opr (runes ''-'')])
   \<and> evaluatePostfix ParseFloat
        [num (runes ''8''), num (runes ''3''), opr (runes ''-''), num (runes ''2''), opr (runes ''-'')]
       = Inr (fsub (fsub (Finite False 4503599627370496 (- 49)) (Finite False 6755399441055744 (- 51)))
                (Finite False 4503599627370496 (- 51)))"
proof -
  note inst = calculate_left_associative [of exampleTables]
  have h: "precedenceOf (runes ''-'') \<ge> precedenceOf (runes ''-'')"
    by simp
  have t: "Type (opr (runes ''-'')) = OPERATOR
     \<and> precedenceOf (Value (opr (runes ''-''))) \<ge> precedenceOf (Value (opr (runes ''-'')))"
    by simp
  have n: "ParseFloat (runes ''8'') = Inr (Finite False 4503599627370496 (- 49))
     \<and> ParseFloat (runes ''3'') = Inr (Finite False 6755399441055744 (- 51))
     \<and> ParseFloat (runes ''2'') = Inr (Finite False 4503599627370496 (- 51))"
    by code_simp
  note g1 = inst [THEN conjunct1, rule_format, OF h]
  note g2 = inst [THEN conjunct2, THEN conjunct1, rule_format, OF t]
  note g3 = inst [THEN conjunct2, THEN conjunct2, THEN conjunct1, rule_format, OF n, THEN conjunct1]
  from h g1 g2 g3 show ?thesis by (intro conjI)
qed

section \<open>Properties of the evaluator\<close>

lemma evaluatePostfix_stops:
  "evalLoop parseFloat pre [] = Inr stack \<Longrightarrow> evalStep parseFloat t stack = Inl e \<Longrightarrow>
   evaluatePostfix parseFloat (pre @ t # post) = Inl e"
  by (simp add: evaluatePostfix_def evalLoop_append)

lemma top_is_last: "\<not> length stack < 2 \<Longrightarrow> stack ! (length stack - Suc 0) = last stack"
  by (cases "stack = []") (simp_all add: last_conv_nth)

lemma evalStep_DivisionByZero_iff:
  "Type t = OPERATOR \<Longrightarrow>
   evalStep parseFloat t stack = Inl DivisionByZero
     \<longleftrightarrow> length stack \<ge> 2 \<and> Value t = runes ''/'' \<and> isZero (last stack)"
  by (auto simp: evalStep_def token_types runes_def Let_def top_is_last)

lemma isZero_iff: "isZero x \<longleftrightarrow> (\<exists>s e. x = Finite s 0 e)"
  by (cases x) (auto simp: isZero_def)

lemma isZero_valof: "isZero x \<longleftrightarrow> x \<noteq> NaN \<and> (\<forall>s. x \<noteq> Infinity s) \<and> valof x = 0"
  by (cases x) (auto simp: isZero_def valof_def)

text \<open>
  C3. Whenever the evaluator applies a \<open>/\<close> whose right operand, the top of the stack, is
  zero (a finite value equal to 0, of either sign), it fails with DivisionByZero and
  computes no quotient; an operator token fails so in no other case.
  \<^verbatim>\<open>calculate("5 / 0")\<close> fails with DivisionByZero.
\<close>

theorem evaluatePostfix_division_by_zero:
  "(\<forall>pre t post stack.
      evalLoop parseFloat pre [] = Inr stack \<and> Type t = OPERATOR \<and> Value t = runes ''/''
      \<and> length stack \<ge> 2 \<and> isZero (last stack) \<longrightarrow>
      evaluatePostfix parseFloat (pre @ t # post) = Inl DivisionByZero)
   \<and> (\<forall>t stack. Type t = OPERATOR \<longrightarrow>
        (evalStep parseFloat t stack = Inl DivisionByZero
           \<longleftrightarrow> length stack \<ge> 2 \<and> Value t = runes ''/'' \<and> isZero (last stack)))
   \<and> (\<forall>x. isZero x \<longleftrightarrow> x \<noteq> NaN \<and> (\<forall>s. x \<noteq> Infinity s) \<and> valof x = 0)
   \<and> calculate U ParseFloat (runes ''5 / 0'') = Inl DivisionByZero"
proof (intro conjI allI impI)
  show "calculate U ParseFloat (runes ''5 / 0'') = Inl DivisionByZero"
    by code_simp
  show "isZero x \<longleftrightarrow> x \<noteq> NaN \<and> (\<forall>s. x \<noteq> Infinity s) \<and> valof x = 0" for x
    by (rule isZero_valof)
  show "evalStep parseFloat t stack = Inl DivisionByZero
           \<longleftrightarrow> length stack \<ge> 2 \<and> Value t = runes ''/'' \<and> isZero (last stack)"
    if "Type t = OPERATOR" for t stack
    using that by (rule evalStep_DivisionByZero_iff)
  show "evaluatePostfix parseFloat (pre @ t # post) = Inl DivisionByZero"
    if a: "evalLoop parseFloat pre [] = Inr stack \<and> Type t = OPERATOR \<and> Value t = runes ''/''
      \<and> length stack \<ge> 2 \<and> isZero (last stack)" for pre t post stack
  proof -
    from a have "evalStep parseFloat t stack = Inl DivisionByZero"
      by (simp add: evalStep_DivisionByZero_iff)
    with a show ?thesis by (simp add: evaluatePostfix_stops)
  qed
qed

theorem evaluatePostfix_division_by_zero_witness:
  "evalLoop ParseFloat [num (runes ''5''), num (runes ''0'')] []
     = Inr [Finite False 5629499534213120 (- 50), Finite False 0 (- 1074)]
   \<and> isZero (last [Finite False 5629499534213120 (- 50), Finite False 0 (- 1074)])
   \<and> evaluatePostfix ParseFloat ([num (runes ''5''), num (runes ''0'')] @ opr (runes ''/'') # [])
       = Inl DivisionByZero
   \<and> evalStep ParseFloat (opr (runes ''/'')) [Finite False 5629499534213120 (- 50), Finite False 0 (- 1074)]
       = Inl DivisionByZero"
proof -
  note inst = evaluatePostfix_division_by_zero [of ParseFloat exampleTables]
  have l: "evalLoop ParseFloat [num (runes ''5''), num (runes ''0'')] []
     = Inr [Finite False 5629499534213120 (- 50), Finite False 0 (- 1074)]"
    by code_simp
  have z: "isZero (last [Finite False 5629499534213120 (- 50), Finite False 0 (- 1074)])"
    by (simp add: isZero_def)
  have h: "evalLoop ParseFloat [num (runes ''5''), num (runes ''0'')] []
             = Inr [Finite False 5629499534213120 (- 50), Finite False 0 (- 1074)]
     \<and> Type (opr (runes ''/'')) = OPERATOR \<and> Value (opr (runes ''/'')) = runes ''/''
     \<and> length [Finite False 5629499534213120 (- 50), Finite False 0 (- 1074)] \<ge> 2
     \<and> isZero (last [Finite False 5629499534213120 (- 50), Finite False 0 (- 1074)])"
    using l z by simp
  have o: "Type (opr (runes ''/'')) = OPERATOR" by simp
  note g1 = inst [THEN conjunct1, rule_format, OF h]
  note g2 = inst [THEN conjunct2, THEN conjunct1, rule_format, OF o,
                  of "[Finite False 5629499534213120 (- 50), Finite False 0 (- 1074)]"]
  have g3: "evalStep ParseFloat (opr (runes ''/'')) [Finite False 5629499534213120 (- 50), Finite False 0 (- 1074)]
       = Inl DivisionByZero"
    using g2 z by simp
  from l z g1 g3 show ?thesis by (intro conjI)
qed

subsection \<open>Operand counts\<close>

lemma evalStep_InsufficientOperands:
  "Type t = OPERATOR \<Longrightarrow> length stack < 2 \<Longrightarrow>
   evalStep parseFloat t stack = Inl (InsufficientOperands (Value t))"
  by (simp add: evalStep_def token_types)

text \<open>
  C6, as the code has it. An operator token met with fewer than two values on the stack
  fails with InsufficientOperands, and after the last token the stack must hold exactly
  one value, or the evaluation fails with InvalidExpression: \<^verbatim>\<open>calculate("1 2")\<close> and
  \<^verbatim>\<open>calculate("")\<close> fail with InvalidExpression. The converter moves a leading operator
  behind its operands, so \<^verbatim>\<open>calculate("+ 1 2")\<close> evaluates \<open>1 2 +\<close> and returns 3; it is
  \<^verbatim>\<open>calculate("+ 1")\<close> that fails with InsufficientOperands.
\<close>

theorem evaluatePostfix_operand_count:
  "(\<forall>pre t post stack.
      evalLoop parseFloat pre [] = Inr stack \<and> Type t = OPERATOR \<and> length stack < 2 \<longrightarrow>
      evaluatePostfix parseFloat (pre @ t # post) = Inl (InsufficientOperands (Value t)))
   \<and> (\<forall>tokens stack.
        evalLoop parseFloat tokens [] = Inr stack \<longrightarrow>
        evaluatePostfix parseFloat tokens
          = (if length stack = 1 then Inr (stack ! 0) else Inl InvalidExpression))
   \<and> evaluatePostfix parseFloat [] = Inl InvalidExpression
   \<and> calculate U ParseFloat (runes ''1 2'') = Inl InvalidExpression
   \<and> calculate U ParseFloat (runes '''') = Inl InvalidExpression
   \<and> calculate U ParseFloat (runes ''+ 1 2'') = Inr (Finite False 6755399441055744 (- 51))
   \<and> valof (Finite False 6755399441055744 (- 51)) = 3
   \<and> calculate U ParseFloat (runes ''+ 1'') = Inl (InsufficientOperands (runes ''+''))
   \<and> tokenize U (runes ''+ 1 2'') = Inr [opr (runes ''+''), num (runes ''1''), num (runes ''2'')]
   \<and> toPostfix [opr (runes ''+''), num (runes ''1''), num (runes ''2'')]
       = Inr [num (runes ''1''), num (runes ''2''), opr (runes ''+'')]"
proof (intro conjI allI impI)
  show "tokenize U (runes ''+ 1 2'') = Inr [opr (runes ''+''), num (runes ''1''), num (runes ''2'')]"
    by code_simp
  show "toPostfix [opr (runes ''+''), num (runes ''1''), num (runes ''2'')]
       = Inr [num (runes ''1''), num (runes ''2''), opr (runes ''+'')]"
    by code_simp
  show "calculate U ParseFloat (runes ''1 2'') = Inl InvalidExpression"
    by code_simp
  show "calculate U ParseFloat (runes '''') = Inl InvalidExpression"
    by code_simp
  show "calculate U ParseFloat (runes ''+ 1 2'') = Inr (Finite False 6755399441055744 (- 51))"
    by code_simp
  show "calculate U ParseFloat (runes ''+ 1'') = Inl (InsufficientOperands (runes ''+''))"
    by code_simp
  show "valof (Finite False 6755399441055744 (- 51)) = 3"
    by (rule valof_examples)
  show "evaluatePostfix parseFloat [] = Inl InvalidExpression"
    by (simp add: evaluatePostfix_def)
  show "evaluatePostfix parseFloat tokens
          = (if length stack = 1 then Inr (stack ! 0) else Inl InvalidExpression)"
    if "evalLoop parseFloat tokens [] = Inr stack" for tokens stack
    using that by (simp add: evaluatePostfix_def)
  show "evaluatePostfix parseFloat (pre @ t # post) = Inl (InsufficientOperands (Value t))"
    if a: "evalLoop parseFloat pre [] = Inr stack \<and> Type t = OPERATOR \<and> length stack < 2"
    for pre t post stack
  proof -
    from a have "evalStep parseFloat t stack = Inl (InsufficientOperands (Value t))"
      by (simp add: evalStep_InsufficientOperands)
    with a show ?thesis by (simp add: evaluatePostfix_stops)
  qed
qed

theorem evaluatePostfix_operand_count_witness:
  "evalLoop ParseFloat [num (runes ''1'')] [] = Inr [Finite False 4503599627370496 (- 52)]
   \<and> evaluatePostfix ParseFloat ([num (runes ''1'')] @ opr (runes ''+'') # [])
       = Inl (InsufficientOperands (runes ''+''))
   \<and> evaluatePostfix ParseFloat [num (runes ''1'')] = Inr (Finite False 4503599627370496 (- 52))"
proof -
  note inst = evaluatePostfix_operand_count [of ParseFloat exampleTables]
  have l: "evalLoop ParseFloat [num (runes ''1'')] [] = Inr [Finite False 4503599627370496 (- 52)]"
    by code_simp
  have h: "evalLoop ParseFloat [num (runes ''1'')] [] = Inr [Finite False 4503599627370496 (- 52)]
     \<and> Type (opr (runes ''+'')) = OPERATOR \<and> length [Finite False 4503599627370496 (- 52)] < 2"
    using l by simp
  have g1: "evaluatePostfix ParseFloat ([num (runes ''1'')] @ opr (runes ''+'') # [])
       = Inl (InsufficientOperands (runes ''+''))"
    using inst [THEN conjunct1, rule_format, OF h] by simp
  have g2: "evaluatePostfix ParseFloat [num (runes ''1'')] = Inr (Finite False 4503599627370496 (- 52))"
    using inst [THEN conjunct2, THEN conjunct1, rule_format, OF l] by simp
  from l g1 g2 show ?thesis by (intro conjI)
qed

text \<open>\<^verbatim>\<open>calculate("+ 1 2")\<close> does not fail: it returns 3.\<close>

theorem calculate_leading_operator_counterexample:
  "calculate exampleTables ParseFloat (runes ''+ 1 2'') = Inr (Finite False 6755399441055744 (- 51))"
  by code_simp

section \<open>Properties of the tokenizer\<close>

lemma tokenizeLoop_append:
  "tokenizeLoop U (xs @ ys) tokens nb =
     (case tokenizeLoop U xs tokens nb of
        Inl e \<Rightarrow> Inl e
      | Inr (tokens', nb') \<Rightarrow> tokenizeLoop U ys tokens' nb')"
  by (induction xs arbitrary: tokens nb) simp_all

lemma tokenizeLoop_rejects:
  "find (\<lambda>r. \<not> acceptedRune U r) input = Some c \<Longrightarrow>
   tokenizeLoop U input tokens nb = Inl (InvalidCharacter c)"
  by (induction input arbitrary: tokens nb) (auto simp: acceptedRune_def split: if_splits)

lemma tokenizeLoop_accepts:
  "find (\<lambda>r. \<not> acceptedRune U r) input = None \<Longrightarrow>
   \<exists>tokens' nb'. tokenizeLoop U input tokens nb = Inr (tokens', nb')"
  by (induction input arbitrary: tokens nb) (auto simp: acceptedRune_def split: if_splits)

lemma flush_tokens:
  "\<forall>t \<in> set tokens. tokenizerToken U t \<Longrightarrow> \<forall>r \<in> set nb. numberRune U r \<Longrightarrow>
   \<forall>t \<in> set (flush tokens nb). tokenizerToken U t"
  by (auto simp: flush_def tokenizerToken_def numberText_def)

lemma tokenizeLoop_tokens:
  "\<forall>t \<in> set tokens. tokenizerToken U t \<Longrightarrow> \<forall>r \<in> set nb. numberRune U r \<Longrightarrow>
   tokenizeLoop U input tokens nb = Inr (tokens', nb') \<Longrightarrow>
   (\<forall>t \<in> set tokens'. tokenizerToken U t) \<and> (\<forall>r \<in> set nb'. numberRune U r)"
proof (induction input arbitrary: tokens nb)
  case Nil
  then show ?case by simp
next
  case (Cons r rs)
  note fl = flush_tokens [OF Cons.prems(1,2)]
  have e: "\<forall>x \<in> set ([] :: rune list). numberRune U x"
    by simp
  consider (digit) "numberRune U r"
    | (op) "\<not> numberRune U r" "isOperatorRune r"
    | (lp) "\<not> numberRune U r" "\<not> isOperatorRune r" "r = of_char CHR ''(''"
    | (rp) "\<not> numberRune U r" "\<not> isOperatorRune r" "r \<noteq> of_char CHR ''(''" "r = of_char CHR '')''"
    | (other) "\<not> numberRune U r" "\<not> isOperatorRune r" "r \<noteq> of_char CHR ''(''" "r \<noteq> of_char CHR '')''"
    by blast
  then show ?case
  proof cases
    case digit
    then have l: "tokenizeLoop U rs tokens (nb @ [r]) = Inr (tokens', nb')"
      using Cons.prems(3) by (simp add: numberRune_def)
    have n: "\<forall>x \<in> set (nb @ [r]). numberRune U x"
      using Cons.prems(2) digit by simp
    show ?thesis
      by (rule Cons.IH [OF Cons.prems(1) n l])
  next
    case op
    let ?t = "flush tokens nb @ [\<lparr>Type = OPERATOR, Value = [r]\<rparr>]"
    from op have l: "tokenizeLoop U rs ?t [] = Inr (tokens', nb')"
      using Cons.prems(3) by (simp add: numberRune_def)
    have "tokenizerToken U \<lparr>Type = OPERATOR, Value = [r]\<rparr>"
      using op by (simp add: tokenizerToken_def)
    with fl have k: "\<forall>t \<in> set ?t. tokenizerToken U t"
      by simp
    show ?thesis
      by (rule Cons.IH [OF k e l])
  next
    case lp
    let ?t = "flush tokens nb @ [\<lparr>Type = LPAREN, Value = [r]\<rparr>]"
    from lp have l: "tokenizeLoop U rs ?t [] = Inr (tokens', nb')"
      using Cons.prems(3) by (simp add: numberRune_def)
    have "tokenizerToken U \<lparr>Type = LPAREN, Value = [r]\<rparr>"
      using lp by (simp add: tokenizerToken_def runes_def)
    with fl have k: "\<forall>t \<in> set ?t. tokenizerToken U t"
      by simp
    show ?thesis
      by (rule Cons.IH [OF k e l])
  next
    case rp
    let ?t = "flush tokens nb @ [\<lparr>Type = RPAREN, Value = [r]\<rparr>]"
    from rp have l: "tokenizeLoop U rs ?t [] = Inr (tokens', nb')"
      using Cons.prems(3) by (simp add: numberRune_def)
    have "tokenizerToken U \<lparr>Type = RPAREN, Value = [r]\<rparr>"
      using rp by (simp add: tokenizerToken_def runes_def)
    with fl have k: "\<forall>t \<in> set ?t. tokenizerToken U t"
      by simp
    show ?thesis
      by (rule Cons.IH [OF k e l])
  next
    case other
    then have l: "tokenizeLoop U rs (flush tokens nb) [] = Inr (tokens', nb')"
      using Cons.prems(3) by (simp add: numberRune_def split: if_splits)
    show ?thesis
      by (rule Cons.IH [OF fl e l])
  qed
qed

lemma tokenize_tokens:
  "tokenize U input = Inr tokens \<Longrightarrow> \<forall>t \<in> set tokens. tokenizerToken U t"
proof -
  assume a: "tokenize U input = Inr tokens"
  then obtain tk nb where l: "tokenizeLoop U input [] [] = Inr (tk, nb)"
    and f: "tokens = flush tk nb"
    by (auto simp: tokenize_def split: sum.splits)
  from tokenizeLoop_tokens [OF _ _ l]
  have "(\<forall>t \<in> set tk. tokenizerToken U t) \<and> (\<forall>r \<in> set nb. numberRune U r)"
    by simp
  then show ?thesis
    unfolding f using flush_tokens [of tk U nb] by blast
qed

text \<open>
  C4, as the code has it. Every NUMBER token of a successful \<^verbatim>\<open>tokenize\<close> has a non-empty
  text made of digits and decimal points only; the number of points is not bounded.
\<close>

theorem tokenize_number_text:
  "tokenize U input = Inr tokens \<Longrightarrow>
   \<forall>t \<in> set tokens. Type t = NUMBER \<longrightarrow>
     Value t \<noteq> [] \<and> (\<forall>r \<in> set (Value t). IsDigit U r \<or> r = of_char CHR ''.'')"
  using tokenize_tokens [of U input tokens]
  by (auto simp: tokenizerToken_def numberText_def numberRune_def token_types)

theorem tokenize_number_text_witness:
  "tokenize exampleTables (runes ''1.5 * 2'')
     = Inr [num (runes ''1.5''), opr (runes ''*''), num (runes ''2'')]
   \<and> Value (num (runes ''1.5'')) \<noteq> []
   \<and> list_all (\<lambda>r. IsDigit exampleTables r \<or> r = of_char CHR ''.'') (Value (num (runes ''1.5'')))"
proof -
  have e: "tokenize exampleTables (runes ''1.5 * 2'')
     = Inr [num (runes ''1.5''), opr (runes ''*''), num (runes ''2'')]"
    by code_simp
  have "Value (num (runes ''1.5'')) \<noteq> []
     \<and> (\<forall>r \<in> set (Value (num (runes ''1.5''))). IsDigit exampleTables r \<or> r = of_char CHR ''.'')"
    using tokenize_number_text [OF e, rule_format, of "num (runes ''1.5'')"] by simp
  then have "Value (num (runes ''1.5'')) \<noteq> []
     \<and> list_all (\<lambda>r. IsDigit exampleTables r \<or> r = of_char CHR ''.'') (Value (num (runes ''1.5'')))"
    by (simp add: list_all_iff)
  with e show ?thesis by (intro conjI) simp_all
qed

text \<open>\<^verbatim>\<open>tokenize("1.2.3")\<close> succeeds with one NUMBER token that has two decimal points.\<close>

theorem tokenize_two_points_counterexample:
  "tokenize exampleTables (runes ''1.2.3'') = Inr [num (runes ''1.2.3'')]
   \<and> count_list (runes ''1.2.3'') (of_char CHR ''.'') = 2"
  by code_simp

text \<open>
  C7. If the input has a rune that is not a digit, a decimal point, one of \<open>+ - * /\<close>, a
  parenthesis or white space, \<^verbatim>\<open>tokenize\<close> fails with InvalidCharacter carrying the first
  such rune, and \<^verbatim>\<open>calculate\<close> returns that error; with no such rune \<^verbatim>\<open>tokenize\<close> succeeds.
  \<^verbatim>\<open>calculate("2 + a")\<close> fails with InvalidCharacter \<open>a\<close>.
\<close>

theorem tokenize_invalid_character:
  "(find (\<lambda>r. \<not> acceptedRune U r) input = Some c \<longrightarrow>
      tokenize U input = Inl (InvalidCharacter c)
      \<and> calculate U parseFloat input = Inl (InvalidCharacter c))
   \<and> (find (\<lambda>r. \<not> acceptedRune U r) input = None \<longrightarrow> (\<exists>tokens. tokenize U input = Inr tokens))
   \<and> calculate U parseFloat (runes ''2 + a'') = Inl (InvalidCharacter (of_char CHR ''a''))"
proof (intro conjI impI)
  show "calculate U parseFloat (runes ''2 + a'') = Inl (InvalidCharacter (of_char CHR ''a''))"
    by code_simp
  show "\<exists>tokens. tokenize U input = Inr tokens"
    if "find (\<lambda>r. \<not> acceptedRune U r) input = None"
    using tokenizeLoop_accepts [OF that, of "[]" "[]"] by (auto simp: tokenize_def)
  assume "find (\<lambda>r. \<not> acceptedRune U r) input = Some c"
  then show t: "tokenize U input = Inl (InvalidCharacter c)"
    by (simp add: tokenize_def tokenizeLoop_rejects)
  then show "calculate U parseFloat input = Inl (InvalidCharacter c)"
    by (simp add: calculate_def)
qed

theorem tokenize_invalid_character_witness:
  "find (\<lambda>r. \<not> acceptedRune exampleTables r) (runes ''2 # 3 a'') = Some (of_char CHR ''#'')
   \<and> tokenize exampleTables (runes ''2 # 3 a'') = Inl (InvalidCharacter (of_char CHR ''#''))
   \<and> calculate exampleTables ParseFloat (runes ''2 # 3 a'') = Inl (InvalidCharacter (of_char CHR ''#''))
   \<and> find (\<lambda>r. \<not> acceptedRune exampleTables r) (runes ''2 + 3'') = None
   \<and> (\<exists>tokens. tokenize exampleTables (runes ''2 + 3'') = Inr tokens)"
proof -
  have h: "find (\<lambda>r. \<not> acceptedRune exampleTables r) (runes ''2 # 3 a'') = Some (of_char CHR ''#'')"
    by code_simp
  have n: "find (\<lambda>r. \<not> acceptedRune exampleTables r) (runes ''2 + 3'') = None"
    by code_simp
  note g1 = tokenize_invalid_character [of exampleTables "runes ''2 # 3 a''" "of_char CHR ''#''" ParseFloat,
      THEN conjunct1, rule_format, OF h]
  note g2 = tokenize_invalid_character [of exampleTables "runes ''2 + 3''" _ ParseFloat,
      THEN conjunct2, THEN conjunct1, rule_format, OF n]
  from h g1 n g2 show ?thesis by (intro conjI) simp_all
qed

subsection \<open>White space\<close>

lemma flush_empty [simp]: "flush tokens [] = tokens"
  by (simp add: flush_def)

lemma IsSpace_not_symbol:
  "IsSpace U w \<Longrightarrow>
   w \<noteq> of_char CHR ''.'' \<and> \<not> isOperatorRune w \<and> w \<noteq> of_char CHR ''('' \<and> w \<noteq> of_char CHR '')''"
  by (auto simp: IsSpace_def MaxLatin1_def isOperatorRune_def runes_def split: if_splits)

lemma tokenizeLoop_space:
  "IsSpace U w \<Longrightarrow> \<not> IsDigit U w \<Longrightarrow>
   tokenizeLoop U (w # rs) tokens nb = tokenizeLoop U rs (flush tokens nb) []"
  using IsSpace_not_symbol [of U w] by simp

lemma tokenizeLoop_flushed:
  "\<not> numberRune U r \<Longrightarrow>
   tokenizeLoop U (r # rs) (flush tokens nb) [] = tokenizeLoop U (r # rs) tokens nb"
  by (simp add: numberRune_def)

lemma tokenizeLoop_builder_empty:
  "tokenizeLoop U s tokens nb = Inr (tokens', nb') \<Longrightarrow> s \<noteq> [] \<Longrightarrow>
   \<not> numberRune U (last s) \<Longrightarrow> nb' = []"
proof (induction s arbitrary: tokens nb)
  case Nil
  then show ?case by simp
next
  case (Cons r rs)
  show ?case
  proof (cases "rs = []")
    case True
    with Cons.prems show ?thesis
      by (simp add: numberRune_def split: if_splits)
  next
    case False
    with Cons.prems(3) have l: "\<not> numberRune U (last rs)" by simp
    from Cons.prems(1) obtain tk b where "tokenizeLoop U rs tk b = Inr (tokens', nb')"
      by (auto split: if_splits)
    then show ?thesis
      using Cons.IH [OF _ False l] by blast
  qed
qed

lemma tokenize_space:
  assumes w: "IsSpace U w" "\<not> IsDigit U w"
    and sep: "s1 = [] \<or> \<not> numberRune U (last s1) \<or> s2 = [] \<or> \<not> numberRune U (hd s2)"
  shows "tokenize U (s1 @ w # s2) = tokenize U (s1 @ s2)"
proof (cases "tokenizeLoop U s1 [] []")
  case (Inl e)
  then show ?thesis
    by (simp add: tokenize_def tokenizeLoop_append)
next
  case (Inr p)
  obtain tk nb where p: "p = (tk, nb)" by (cases p)
  have l: "tokenizeLoop U (s1 @ w # s2) [] [] = tokenizeLoop U s2 (flush tk nb) []"
    using Inr p w by (simp add: tokenizeLoop_append tokenizeLoop_space del: tokenizeLoop.simps)
  have r: "tokenizeLoop U (s1 @ s2) [] [] = tokenizeLoop U s2 tk nb"
    using Inr p by (simp add: tokenizeLoop_append)
  consider (a) "s1 = []" | (b) "s1 \<noteq> []" "\<not> numberRune U (last s1)" | (c) "s2 = []"
    | (d) "s2 \<noteq> []" "\<not> numberRune U (hd s2)"
    using sep by blast
  then show ?thesis
  proof cases
    case a
    with Inr p have "nb = []" by simp
    with l r show ?thesis by (simp add: tokenize_def)
  next
    case b
    from Inr p have "tokenizeLoop U s1 [] [] = Inr (tk, nb)" by simp
    from tokenizeLoop_builder_empty [OF this b] have "nb = []" .
    with l r show ?thesis by (simp add: tokenize_def)
  next
    case c
    with l r show ?thesis by (simp add: tokenize_def)
  next
    case d
    then obtain x xs where x: "s2 = x # xs" "\<not> numberRune U x"
      by (cases s2) auto
    have "tokenizeLoop U s2 (flush tk nb) [] = tokenizeLoop U s2 tk nb"
      unfolding x(1) using x(2) by (rule tokenizeLoop_flushed)
    with l r show ?thesis by (simp add: tokenize_def)
  qed
qed

text \<open>
  C8. A white space rune only flushes the number accumulator and emits no token, so one
  put anywhere but between two runes of a number text changes neither the tokens nor the
  result of \<^verbatim>\<open>calculate\<close>. \<^verbatim>\<open>calculate("1+1")\<close> equals \<^verbatim>\<open>calculate(" 1 + 1 ")\<close>, both 2.
\<close>

theorem calculate_whitespace_insensitive:
  "(\<forall>w s1 s2.
      IsSpace U w \<and> \<not> IsDigit U w
      \<and> (s1 = [] \<or> \<not> numberRune U (last s1) \<or> s2 = [] \<or> \<not> numberRune U (hd s2)) \<longrightarrow>
      tokenize U (s1 @ w # s2) = tokenize U (s1 @ s2)
      \<and> calculate U parseFloat (s1 @ w # s2) = calculate U parseFloat (s1 @ s2))
   \<and> (\<forall>w rs tokens nb.
        IsSpace U w \<and> \<not> IsDigit U w \<longrightarrow>
        tokenizeLoop U (w # rs) tokens nb = tokenizeLoop U rs (flush tokens nb) [])
   \<and> calculate U parseFloat (runes ''1+1'') = calculate U parseFloat (runes '' 1 + 1 '')
   \<and> calculate U ParseFloat (runes ''1+1'') = Inr (Finite False 4503599627370496 (- 51))
   \<and> calculate U ParseFloat (runes '' 1 + 1 '') = Inr (Finite False 4503599627370496 (- 51))
   \<and> valof (Finite False 4503599627370496 (- 51)) = 2"
proof (intro conjI allI impI)
  show "calculate U ParseFloat (runes ''1+1'') = Inr (Finite False 4503599627370496 (- 51))"
    by code_simp
  show "calculate U ParseFloat (runes '' 1 + 1 '') = Inr (Finite False 4503599627370496 (- 51))"
    by code_simp
  show "valof (Finite False 4503599627370496 (- 51)) = 2"
    by (rule valof_examples)
  have "tokenize U (runes ''1+1'') = tokenize U (runes '' 1 + 1 '')"
    by code_simp
  then show "calculate U parseFloat (runes ''1+1'') = calculate U parseFloat (runes '' 1 + 1 '')"
    by (simp only: calculate_def)
  show "tokenizeLoop U (w # rs) tokens nb = tokenizeLoop U rs (flush tokens nb) []"
    if "IsSpace U w \<and> \<not> IsDigit U w" for w rs tokens nb
    using that tokenizeLoop_space [of U w rs tokens nb] by blast
  fix w s1 s2
  assume a: "IsSpace U w \<and> \<not> IsDigit U w
      \<and> (s1 = [] \<or> \<not> numberRune U (last s1) \<or> s2 = [] \<or> \<not> numberRune U (hd s2))"
  then show t: "tokenize U (s1 @ w # s2) = tokenize U (s1 @ s2)"
    by (intro tokenize_space) simp_all
  then show "calculate U parseFloat (s1 @ w # s2) = calculate U parseFloat (s1 @ s2)"
    by (simp only: calculate_def)
qed

theorem calculate_whitespace_insensitive_witness:
  "IsSpace exampleTables 32 \<and> \<not> IsDigit exampleTables 32
   \<and> tokenize exampleTables (runes ''1'' @ 32 # runes ''+1'') = tokenize exampleTables (runes ''1'' @ runes ''+1'')
   \<and> calculate exampleTables ParseFloat (runes ''1'' @ 32 # runes ''+1'')
       = calculate exampleTables ParseFloat (runes ''1'' @ runes ''+1'')
   \<and> tokenizeLoop exampleTables (32 # runes ''+1'') [] (runes ''1'')
       = tokenizeLoop exampleTables (runes ''+1'') (flush [] (runes ''1'')) []"
proof -
  note inst = calculate_whitespace_insensitive [of exampleTables ParseFloat]
  have s: "IsSpace exampleTables 32 \<and> \<not> IsDigit exampleTables 32"
    by code_simp
  have n: "\<not> numberRune exampleTables (hd (runes ''+1''))"
    by code_simp
  have h: "IsSpace exampleTables 32 \<and> \<not> IsDigit exampleTables 32
      \<and> (runes ''1'' = [] \<or> \<not> numberRune exampleTables (last (runes ''1'')) \<or> runes ''+1'' = []
          \<or> \<not> numberRune exampleTables (hd (runes ''+1'')))"
    using s n by blast
  note g1 = inst [THEN conjunct1, rule_format, OF h]
  note g2 = inst [THEN conjunct2, THEN conjunct1, rule_format, OF s, of "runes ''+1''" "[]" "runes ''1''"]
  from s g1 g2 show ?thesis by (intro conjI) simp_all
qed

section \<open>The parser is called on number texts only\<close>

text \<open>
  The postfix tokens are tokens of the input, so \<^verbatim>\<open>calculate\<close> reads the parameter
  \<open>parseFloat\<close> on the texts of NUMBER tokens of \<^verbatim>\<open>tokenize\<close> alone: two parsers that agree
  on digit-and-point texts give the same result.
\<close>

lemma toPostfixLoop_subset:
  "toPostfixLoop ts stack out = Inr (stack', out') \<Longrightarrow>
   set stack' \<union> set out' \<subseteq> set ts \<union> set stack \<union> set out"
proof (induction ts arbitrary: stack out)
  case Nil
  then show ?case by auto
next
  case (Cons t ts)
  consider (num) "Type t = NUMBER" | (op) "Type t = OPERATOR" | (lp) "Type t = LPAREN"
    | (rp) "Type t = RPAREN"
    | (other) "Type t \<noteq> NUMBER" "Type t \<noteq> OPERATOR" "Type t \<noteq> LPAREN" "Type t \<noteq> RPAREN"
    by blast
  then show ?case
  proof cases
    case num
    then have "toPostfixLoop ts stack (out @ [t]) = Inr (stack', out')"
      using Cons.prems by simp
    from Cons.IH [OF this] show ?thesis by auto
  next
    case op
    let ?s = "rev (dropWhile (popsBefore t) (rev stack)) @ [t]"
    let ?o = "out @ takeWhile (popsBefore t) (rev stack)"
    from op have "toPostfixLoop ts ?s ?o = Inr (stack', out')"
      using Cons.prems by (simp add: token_types popOperators_eq)
    from Cons.IH [OF this] show ?thesis
      by (auto dest!: set_dropWhileD set_takeWhileD)
  next
    case lp
    then have "toPostfixLoop ts (stack @ [t]) out = Inr (stack', out')"
      using Cons.prems by (simp add: token_types)
    from Cons.IH [OF this] show ?thesis by auto
  next
    case rp
    let ?D = "dropWhile (\<lambda>t. Type t \<noteq> LPAREN) (rev stack)"
    let ?o = "out @ takeWhile (\<lambda>t. Type t \<noteq> LPAREN) (rev stack)"
    from rp have "toPostfixLoop ts (butlast (rev ?D)) ?o = Inr (stack', out')"
      using Cons.prems by (simp add: token_types popUntilLParen_eq split: if_splits)
    from Cons.IH [OF this]
    have "set stack' \<union> set out' \<subseteq> set ts \<union> set (butlast (rev ?D)) \<union> set ?o" .
    moreover have "set (butlast (rev ?D)) \<subseteq> set stack"
    proof
      fix x
      assume "x \<in> set (butlast (rev ?D))"
      then have "x \<in> set (rev ?D)" by (rule in_set_butlastD)
      then have "x \<in> set ?D" by simp
      then have "x \<in> set (rev stack)" by (rule set_dropWhileD)
      then show "x \<in> set stack" by simp
    qed
    moreover have "set ?o \<subseteq> set out \<union> set stack"
      by (auto dest!: set_takeWhileD)
    ultimately show ?thesis by auto
  next
    case other
    then have "toPostfixLoop ts stack out = Inr (stack', out')"
      using Cons.prems by simp
    from Cons.IH [OF this] show ?thesis by auto
  qed
qed

lemma toPostfix_subset:
  "toPostfix tokens = Inr postfix \<Longrightarrow> set postfix \<subseteq> set tokens"
proof -
  assume "toPostfix tokens = Inr postfix"
  then obtain stack out where l: "toPostfixLoop tokens [] [] = Inr (stack, out)"
    and r: "popRemaining stack out = Inr postfix"
    by (auto simp: toPostfix_def split: sum.splits)
  from r have "postfix = out @ rev stack"
    by (auto simp: popRemaining_eq split: if_splits)
  with toPostfixLoop_subset [OF l] show ?thesis by auto
qed

lemma evalStep_cong:
  "(Type t = NUMBER \<Longrightarrow> pf (Value t) = pf' (Value t)) \<Longrightarrow> evalStep pf t stack = evalStep pf' t stack"
  by (simp add: evalStep_def)

lemma evalLoop_cong:
  "\<forall>t \<in> set ts. Type t = NUMBER \<longrightarrow> pf (Value t) = pf' (Value t) \<Longrightarrow>
   evalLoop pf ts stack = evalLoop pf' ts stack"
proof (induction ts arbitrary: stack)
  case Nil
  show ?case by simp
next
  case (Cons t ts)
  have "evalStep pf t stack = evalStep pf' t stack"
    using Cons.prems by (intro evalStep_cong) simp
  moreover have "evalLoop pf ts s = evalLoop pf' ts s" for s
    using Cons.prems by (intro Cons.IH) simp
  ultimately show ?case by (simp split: sum.splits)
qed

lemma calculate_cong:
  assumes "\<forall>v. numberText U v \<longrightarrow> pf v = pf' v"
  shows "calculate U pf input = calculate U pf' input"
proof (cases "tokenize U input")
  case (Inl e)
  then show ?thesis by (simp add: calculate_def)
next
  case (Inr tokens)
  note tk = tokenize_tokens [OF Inr]
  show ?thesis
  proof (cases "toPostfix tokens")
    case (Inl e)
    with Inr show ?thesis by (simp add: calculate_def)
  next
    case r: (Inr postfix)
    have "\<forall>t \<in> set postfix. Type t = NUMBER \<longrightarrow> pf (Value t) = pf' (Value t)"
    proof (intro ballI impI)
      fix t assume t: "t \<in> set postfix" "Type t = NUMBER"
      with toPostfix_subset [OF r] tk have "tokenizerToken U t" by blast
      with t(2) have "numberText U (Value t)"
        by (auto simp: tokenizerToken_def token_types)
      with assms show "pf (Value t) = pf' (Value t)" by blast
    qed
    then have "evalLoop pf postfix [] = evalLoop pf' postfix []"
      by (rule evalLoop_cong)
    with Inr r show ?thesis
      by (simp add: calculate_def evaluatePostfix_def)
  qed
qed

section \<open>Standard precedence on the expression grammar\<close>

subsection \<open>The converter\<close>

lemma precedence_texts [simp]:
  "precedenceOf (addText p) = 1" "precedenceOf (mulText q) = 2"
  by (cases p; simp add: precedence_table) (cases q; simp add: precedence_table)

lemma emittedT_pendingT: "emittedT t @ rev (pendingT t) @ xs = postfixT t @ xs"
  by (cases t) simp_all

lemma emittedE_pendingE: "emittedE e @ rev (pendingE e) @ xs = postfixE e @ xs"
  by (cases e) (simp_all add: emittedT_pendingT)

lemma pendingT_pops: "x \<in> set (pendingT t) \<Longrightarrow> Type x = OPERATOR \<and> precedenceOf (Value x) = 2"
  by (cases t) auto

lemma pendingE_pops: "x \<in> set (pendingE e) \<Longrightarrow> Type x = OPERATOR \<and> precedenceOf (Value x) \<ge> 1"
  by (cases e) (auto dest: pendingT_pops)

lemma popOperators_keeps:
  "stack = [] \<or> \<not> popsBefore token (last stack) \<Longrightarrow> popOperators token stack out = (stack, out)"
  by (cases stack rule: rev_cases) (simp_all add: popOperators_Nil popOperators_snoc)

lemma popOperators_pending:
  "\<forall>x \<in> set pending. popsBefore token x \<Longrightarrow> stack = [] \<or> \<not> popsBefore token (last stack) \<Longrightarrow>
   popOperators token (stack @ pending) out = (stack, out @ rev pending)"
proof (induction pending arbitrary: out rule: rev_induct)
  case Nil
  then show ?case by (simp add: popOperators_keeps)
next
  case (snoc x xs)
  have "popOperators token ((stack @ xs) @ [x]) out = popOperators token (stack @ xs) (out @ [x])"
    using snoc.prems(1) by (simp only: popOperators_snoc) simp
  also have "\<dots> = (stack, (out @ [x]) @ rev xs)"
    using snoc.prems by (intro snoc.IH) simp_all
  finally show ?case by simp
qed

lemma popUntilLParen_pending:
  "\<forall>x \<in> set pending. Type x \<noteq> LPAREN \<Longrightarrow> Type l = LPAREN \<Longrightarrow>
   popUntilLParen (stack @ l # pending) out = (stack @ [l], out @ rev pending)"
proof (induction pending arbitrary: out rule: rev_induct)
  case Nil
  have "popUntilLParen ((stack) @ [l]) out = (stack @ [l], out)"
    using Nil.prems(2) by (simp only: popUntilLParen_snoc) simp
  then show ?case by simp
next
  case (snoc x xs)
  have "popUntilLParen ((stack @ l # xs) @ [x]) out = popUntilLParen (stack @ l # xs) (out @ [x])"
    using snoc.prems(1) by (simp only: popUntilLParen_snoc) simp
  also have "\<dots> = (stack @ [l], (out @ [x]) @ rev xs)"
    using snoc.prems by (intro snoc.IH) simp_all
  finally show ?case by simp
qed

lemma toPostfixLoop_append:
  "toPostfixLoop (xs @ ys) stack out =
     (case toPostfixLoop xs stack out of
        Inl e \<Rightarrow> Inl e
      | Inr (stack', out') \<Rightarrow> toPostfixLoop ys stack' out')"
proof (induction xs arbitrary: stack out)
  case Nil
  show ?case by simp
next
  case (Cons t ts)
  show ?case
    by (simp add: Cons.IH split: prod.splits)
qed


lemma toPostfixLoop_number:
  "toPostfixLoop (num v # R) S out = toPostfixLoop R S (out @ [num v])"
  by (simp add: token_types)

lemma toPostfixLoop_lparen:
  "toPostfixLoop (\<lparr>Type = LPAREN, Value = v\<rparr> # R) S out
     = toPostfixLoop R (S @ [\<lparr>Type = LPAREN, Value = v\<rparr>]) out"
  by (simp add: token_types)

lemma toPostfixLoop_operator:
  "\<forall>x \<in> set pending. popsBefore (opr v) x \<Longrightarrow> S = [] \<or> \<not> popsBefore (opr v) (last S) \<Longrightarrow>
   toPostfixLoop (opr v # R) (S @ pending) out = toPostfixLoop R (S @ [opr v]) (out @ rev pending)"
  by (simp add: token_types popOperators_pending [unfolded token_types])

lemma toPostfixLoop_rparen:
  "\<forall>x \<in> set pending. Type x \<noteq> LPAREN \<Longrightarrow> Type l = LPAREN \<Longrightarrow>
   toPostfixLoop (\<lparr>Type = RPAREN, Value = v\<rparr> # R) (S @ l # pending) out
     = toPostfixLoop R S (out @ rev pending)"
  by (simp add: token_types popUntilLParen_pending [unfolded token_types])

lemma toPostfixLoop_grammar:
  "topBelow 1 S \<Longrightarrow>
     toPostfixLoop (tokensE e @ R) S out = toPostfixLoop R (S @ pendingE e) (out @ emittedE e)"
  "topBelow 2 S \<Longrightarrow>
     toPostfixLoop (tokensT t @ R) S out = toPostfixLoop R (S @ pendingT t) (out @ emittedT t)"
  "toPostfixLoop (tokensF f @ R) S out = toPostfixLoop R S (out @ postfixF f)"
proof (induction e and t and f arbitrary: S out R and S out R and S out R)
  case (Term t)
  from Term.prems have "topBelow 2 S" by (auto simp: topBelow_def)
  then show ?case by (simp add: Term.IH)
next
  case (AddSub e p t)
  let ?op = "opr (addText p)"
  have pops: "\<forall>x \<in> set (pendingE e). popsBefore ?op x"
    by (auto simp: popsBefore_def dest: pendingE_pops)
  have keep: "S = [] \<or> \<not> popsBefore ?op (last S)"
    using AddSub.prems by (auto simp: topBelow_def popsBefore_def)
  have low: "topBelow 2 (S @ [?op])"
    by (simp add: topBelow_def)
  have "toPostfixLoop (tokensE (AddSub e p t) @ R) S out
      = toPostfixLoop (?op # tokensT t @ R) (S @ pendingE e) (out @ emittedE e)"
    using AddSub.IH(1) [OF AddSub.prems] by simp
  also have "\<dots> = toPostfixLoop (tokensT t @ R) (S @ [?op]) ((out @ emittedE e) @ rev (pendingE e))"
    by (rule toPostfixLoop_operator [OF pops keep])
  also have "\<dots> = toPostfixLoop R ((S @ [?op]) @ pendingT t) (((out @ emittedE e) @ rev (pendingE e)) @ emittedT t)"
    by (rule AddSub.IH(2) [OF low])
  finally show ?case
    by (simp add: emittedE_pendingE)
next
  case (Factor f)
  then show ?case by simp
next
  case (MulDiv t p f)
  let ?op = "opr (mulText p)"
  have pops: "\<forall>x \<in> set (pendingT t). popsBefore ?op x"
    by (auto simp: popsBefore_def dest: pendingT_pops)
  have keep: "S = [] \<or> \<not> popsBefore ?op (last S)"
    using MulDiv.prems by (auto simp: topBelow_def popsBefore_def)
  have "toPostfixLoop (tokensT (MulDiv t p f) @ R) S out
      = toPostfixLoop (?op # tokensF f @ R) (S @ pendingT t) (out @ emittedT t)"
    using MulDiv.IH(1) [OF MulDiv.prems] by simp
  also have "\<dots> = toPostfixLoop (tokensF f @ R) (S @ [?op]) ((out @ emittedT t) @ rev (pendingT t))"
    by (rule toPostfixLoop_operator [OF pops keep])
  also have "\<dots> = toPostfixLoop R (S @ [?op]) (((out @ emittedT t) @ rev (pendingT t)) @ postfixF f)"
    by (rule MulDiv.IH(2))
  finally show ?case
    by (simp add: emittedT_pendingT)
next
  case (Number v)
  show ?case by (simp add: toPostfixLoop_number del: toPostfixLoop.simps)
next
  case (Group e)
  let ?l = "\<lparr>Type = LPAREN, Value = runes ''(''\<rparr>"
  let ?r = "\<lparr>Type = RPAREN, Value = runes '')''\<rparr>"
  have closed: "topBelow 1 (S @ [?l])"
    by (simp add: topBelow_def token_types)
  have nol: "\<forall>x \<in> set (pendingE e). Type x \<noteq> LPAREN"
    by (auto simp: token_types dest!: pendingE_pops)
  have "toPostfixLoop (tokensF (Group e) @ R) S out
      = toPostfixLoop (tokensE e @ ?r # R) (S @ [?l]) out"
    by (simp add: toPostfixLoop_lparen del: toPostfixLoop.simps)
  also have "\<dots> = toPostfixLoop (?r # R) ((S @ [?l]) @ pendingE e) (out @ emittedE e)"
    by (rule Group.IH [OF closed])
  also have "\<dots> = toPostfixLoop R S ((out @ emittedE e) @ rev (pendingE e))"
    using toPostfixLoop_rparen [OF nol, of ?l] by simp
  finally show ?case
    by (simp add: emittedE_pendingE [of e "[]", simplified])
qed

lemma toPostfix_grammar: "toPostfix (tokensE e) = Inr (postfixE e)"
proof -
  have "toPostfixLoop (tokensE e @ []) [] [] = toPostfixLoop [] ([] @ pendingE e) ([] @ emittedE e)"
    by (rule toPostfixLoop_grammar) (simp add: topBelow_def)
  moreover have "\<not> (\<exists>x \<in> set (pendingE e). Type x = LPAREN)"
    by (auto simp: token_types dest!: pendingE_pops)
  ultimately show ?thesis
    using emittedE_pendingE [of e "[]"] by (simp add: toPostfix_def popRemaining_eq)
qed


lemma evalLoop_number:
  "evalLoop parseFloat (num v # R) st =
     (case parseFloat v of Inl err \<Rightarrow> Inl err | Inr x \<Rightarrow> evalLoop parseFloat R (st @ [x]))"
  by (simp add: evalStep_def token_types split: sum.splits)

lemma evalStep_binary:
  "evalStep parseFloat (opr v) (st @ [a, b]) =
     (if v = runes ''+'' then Inr (st @ [fadd a b])
      else if v = runes ''-'' then Inr (st @ [fsub a b])
      else if v = runes ''*'' then Inr (st @ [fmul a b])
      else if v = runes ''/'' then (if isZero b then Inl DivisionByZero else Inr (st @ [fdiv a b]))
      else Inr st)"
  by (simp add: evalStep_def token_types nth_append)

lemma evalLoop_grammar:
  "evalLoop parseFloat (postfixE e @ R) st =
     (case valueE parseFloat e of Inl err \<Rightarrow> Inl err | Inr x \<Rightarrow> evalLoop parseFloat R (st @ [x]))"
  "evalLoop parseFloat (postfixT t @ R) st =
     (case valueT parseFloat t of Inl err \<Rightarrow> Inl err | Inr x \<Rightarrow> evalLoop parseFloat R (st @ [x]))"
  "evalLoop parseFloat (postfixF f @ R) st =
     (case valueF parseFloat f of Inl err \<Rightarrow> Inl err | Inr x \<Rightarrow> evalLoop parseFloat R (st @ [x]))"
proof (induction e and t and f arbitrary: R st and R st and R st)
  case (Term t)
  then show ?case by simp
next
  case (AddSub e p t)
  have step: "evalLoop parseFloat (opr (addText p) # R) (st @ [a, b]) =
      evalLoop parseFloat R (st @ [case p of Plus \<Rightarrow> fadd a b | Minus \<Rightarrow> fsub a b])" for a b
    by (cases p) (simp_all add: evalStep_binary runes_def)
  show ?case
    using step by (simp add: AddSub.IH split: sum.splits addop.splits)
next
  case (Factor f)
  then show ?case by simp
next
  case (MulDiv t p f)
  have step: "evalLoop parseFloat (opr (mulText p) # R) (st @ [a, b]) =
      (case p of
         Times \<Rightarrow> evalLoop parseFloat R (st @ [fmul a b])
       | Divide \<Rightarrow> if isZero b then Inl DivisionByZero else evalLoop parseFloat R (st @ [fdiv a b]))" for a b
    by (cases p) (simp_all add: evalStep_binary runes_def)
  show ?case
    using step by (simp add: MulDiv.IH split: sum.splits mulop.splits)
next
  case (Number v)
  show ?case by (simp add: evalLoop_number del: evalLoop.simps)
next
  case (Group e)
  then show ?case by simp
qed

lemma evaluatePostfix_grammar: "evaluatePostfix parseFloat (postfixE e) = valueE parseFloat e"
  using evalLoop_grammar(1) [of parseFloat e "[]" "[]"]
  by (cases "valueE parseFloat e") (simp_all add: evaluatePostfix_def)

lemma calculate_grammar:
  "tokenize U input = Inr (tokensE e) \<Longrightarrow> calculate U parseFloat input = valueE parseFloat e"
  by (simp add: calculate_def toPostfix_grammar evaluatePostfix_grammar)

lemma grammar_examples:
  "tokenize U (runes ''2 + 3 * 4'')
     = Inr (tokensE (AddSub (Term (literal ''2'')) Plus (MulDiv (literal ''3'') Times (Number (runes ''4'')))))"
  "tokenize U (runes ''2 * 3 + 4'')
     = Inr (tokensE (AddSub (Term (MulDiv (literal ''2'') Times (Number (runes ''3'')))) Plus (literal ''4'')))"
  "tokenize U (runes ''(2 + 3) * 4'')
     = Inr (tokensE (Term (MulDiv (Factor (Group (AddSub (Term (literal ''2'')) Plus (literal ''3''))))
                             Times (Number (runes ''4'')))))"
  by code_simp+

subsection \<open>The tokenizer on the text of an expression\<close>

lemma tokenizeLoop_number_text:
  "\<forall>r \<in> set v. numberRune U r \<Longrightarrow> tokenizeLoop U v tokens nb = Inr (tokens, nb @ v)"
  by (induction v arbitrary: nb) (simp_all add: numberRune_def)

lemma tokenizeLoop_operator:
  "r \<in> set (runes ''+-*/'') \<Longrightarrow>
   tokenizeLoop U (r # rs) tokens nb = tokenizeLoop U rs (flush tokens nb @ [opr [r]]) []"
  by (auto simp: IsDigit_def MaxLatin1_def isOperatorRune_def runes_def)

lemma tokenizeLoop_lparen:
  "tokenizeLoop U (runes ''('' @ rs) tokens nb
     = tokenizeLoop U rs (flush tokens nb @ [\<lparr>Type = LPAREN, Value = runes ''(''\<rparr>]) []"
  by (simp add: IsDigit_def MaxLatin1_def isOperatorRune_def runes_def)

lemma tokenizeLoop_rparen:
  "tokenizeLoop U (runes '')'' @ rs) tokens nb
     = tokenizeLoop U rs (flush tokens nb @ [\<lparr>Type = RPAREN, Value = runes '')''\<rparr>]) []"
  by (simp add: IsDigit_def MaxLatin1_def isOperatorRune_def runes_def)

lemma tokenizeLoop_addText:
  "tokenizeLoop U (addText p @ rs) tokens nb = tokenizeLoop U rs (flush tokens nb @ [opr (addText p)]) []"
  by (cases p) (simp_all add: IsDigit_def MaxLatin1_def isOperatorRune_def runes_def)

lemma tokenizeLoop_mulText:
  "tokenizeLoop U (mulText p @ rs) tokens nb = tokenizeLoop U rs (flush tokens nb @ [opr (mulText p)]) []"
  by (cases p) (simp_all add: IsDigit_def MaxLatin1_def isOperatorRune_def runes_def)

lemma tokenizeLoop_grammar:
  "\<forall>v \<in> set (numbersE e). numberText U v \<Longrightarrow>
     \<exists>tk nb. tokenizeLoop U (textE e) tokens [] = Inr (tk, nb) \<and> flush tk nb = tokens @ tokensE e"
  "\<forall>v \<in> set (numbersT t). numberText U v \<Longrightarrow>
     \<exists>tk nb. tokenizeLoop U (textT t) tokens [] = Inr (tk, nb) \<and> flush tk nb = tokens @ tokensT t"
  "\<forall>v \<in> set (numbersF f). numberText U v \<Longrightarrow>
     \<exists>tk nb. tokenizeLoop U (textF f) tokens [] = Inr (tk, nb) \<and> flush tk nb = tokens @ tokensF f"
proof (induction e and t and f arbitrary: tokens and tokens and tokens)
  case (Term t)
  then show ?case by simp
next
  case (AddSub e p t)
  from AddSub.prems have we: "\<forall>v \<in> set (numbersE e). numberText U v"
    and wt: "\<forall>v \<in> set (numbersT t). numberText U v" by simp_all
  from AddSub.IH(1) [OF we, of tokens] obtain tk nb
    where 1: "tokenizeLoop U (textE e) tokens [] = Inr (tk, nb)" and f1: "flush tk nb = tokens @ tokensE e"
    by blast
  from AddSub.IH(2) [OF wt, of "(tokens @ tokensE e) @ [opr (addText p)]"] obtain tk' nb'
    where 2: "tokenizeLoop U (textT t) ((tokens @ tokensE e) @ [opr (addText p)]) [] = Inr (tk', nb')"
      and f2: "flush tk' nb' = ((tokens @ tokensE e) @ [opr (addText p)]) @ tokensT t"
    by blast
  have "tokenizeLoop U (textE e @ addText p @ textT t) tokens [] = tokenizeLoop U (addText p @ textT t) tk nb"
    by (subst tokenizeLoop_append) (simp add: 1)
  also have "\<dots> = tokenizeLoop U (textT t) (flush tk nb @ [opr (addText p)]) []"
    by (rule tokenizeLoop_addText)
  also have "\<dots> = Inr (tk', nb')"
    using 2 f1 by simp
  finally have "tokenizeLoop U (textE (AddSub e p t)) tokens [] = Inr (tk', nb')"
    by simp
  with f2 show ?case by simp
next
  case (Factor f)
  then show ?case by simp
next
  case (MulDiv t p f)
  from MulDiv.prems have wt: "\<forall>v \<in> set (numbersT t). numberText U v"
    and wf: "\<forall>v \<in> set (numbersF f). numberText U v" by simp_all
  from MulDiv.IH(1) [OF wt, of tokens] obtain tk nb
    where 1: "tokenizeLoop U (textT t) tokens [] = Inr (tk, nb)" and f1: "flush tk nb = tokens @ tokensT t"
    by blast
  from MulDiv.IH(2) [OF wf, of "(tokens @ tokensT t) @ [opr (mulText p)]"] obtain tk' nb'
    where 2: "tokenizeLoop U (textF f) ((tokens @ tokensT t) @ [opr (mulText p)]) [] = Inr (tk', nb')"
      and f2: "flush tk' nb' = ((tokens @ tokensT t) @ [opr (mulText p)]) @ tokensF f"
    by blast
  have "tokenizeLoop U (textT t @ mulText p @ textF f) tokens [] = tokenizeLoop U (mulText p @ textF f) tk nb"
    by (subst tokenizeLoop_append) (simp add: 1)
  also have "\<dots> = tokenizeLoop U (textF f) (flush tk nb @ [opr (mulText p)]) []"
    by (rule tokenizeLoop_mulText)
  also have "\<dots> = Inr (tk', nb')"
    using 2 f1 by simp
  finally have "tokenizeLoop U (textT (MulDiv t p f)) tokens [] = Inr (tk', nb')"
    by simp
  with f2 show ?case by simp
next
  case (Number v)
  then have "numberText U v" by simp
  then have "tokenizeLoop U v tokens [] = Inr (tokens, v)" and "v \<noteq> []"
    by (simp_all add: numberText_def tokenizeLoop_number_text)
  then show ?case by (simp add: flush_def)
next
  case (Group e)
  let ?l = "\<lparr>Type = LPAREN, Value = runes ''(''\<rparr>"
  let ?r = "\<lparr>Type = RPAREN, Value = runes '')''\<rparr>"
  from Group.prems have we: "\<forall>v \<in> set (numbersE e). numberText U v" by simp
  from Group.IH [OF we, of "tokens @ [?l]"] obtain tk nb
    where 1: "tokenizeLoop U (textE e) (tokens @ [?l]) [] = Inr (tk, nb)"
      and f1: "flush tk nb = (tokens @ [?l]) @ tokensE e"
    by blast
  have "tokenizeLoop U (textF (Group e)) tokens [] = tokenizeLoop U (textE e @ runes '')'') (tokens @ [?l]) []"
    by (simp add: tokenizeLoop_lparen del: tokenizeLoop.simps)
  also have "\<dots> = tokenizeLoop U (runes '')'' @ []) tk nb"
    by (subst tokenizeLoop_append) (simp add: 1)
  also have "\<dots> = Inr (flush tk nb @ [?r], [])"
    by (simp only: tokenizeLoop_rparen tokenizeLoop.simps)
  finally show ?case
    using f1 by simp
qed

lemma tokenize_grammar:
  "\<forall>v \<in> set (numbersE e). numberText U v \<Longrightarrow> tokenize U (textE e) = Inr (tokensE e)"
  using tokenizeLoop_grammar(1) [of e U "[]"] by (auto simp: tokenize_def)

subsection \<open>The pipeline\<close>

lemma valof_ten: "valof (Finite False 5629499534213120 (- 49)) = 10"
  by (simp add: valof_def)

text \<open>
  C1. The precedence table is \<open>+\<close>, \<open>-\<close> at 1 and \<open>*\<close>, \<open>/\<close> at 2. In \<open>a p b q c\<close> the operator
  \<open>p\<close> is applied first when its precedence is at least that of \<open>q\<close>, and \<open>q\<close> first
  otherwise; parentheses around \<open>a p b\<close> make \<open>p\<close> the first whatever the precedences.
  For every expression of the standard grammar the converter gives the postfix form of
  the expression, the evaluator gives its value, and \<^verbatim>\<open>calculate\<close> on its text returns that
  value. \<^verbatim>\<open>calculate("2 + 3 * 4")\<close> is 14, \<^verbatim>\<open>calculate("(2 + 3) * 4")\<close> is 20 and
  \<^verbatim>\<open>calculate("2 * 3 + 4")\<close> is 10.
\<close>

theorem calculate_precedence:
  "precedenceOf (runes ''+'') = 1 \<and> precedenceOf (runes ''-'') = 1
   \<and> precedenceOf (runes ''*'') = 2 \<and> precedenceOf (runes ''/'') = 2
   \<and> (\<forall>a b c p q.
         toPostfix [num a, opr p, num b, opr q, num c]
           = Inr (if precedenceOf p \<ge> precedenceOf q
                  then [num a, num b, opr p, num c, opr q]
                  else [num a, num b, num c, opr q, opr p]))
   \<and> (\<forall>l r a b c p q.
         toPostfix [\<lparr>Type = LPAREN, Value = l\<rparr>, num a, opr p, num b, \<lparr>Type = RPAREN, Value = r\<rparr>,
                    opr q, num c]
           = Inr [num a, num b, opr p, num c, opr q])
   \<and> (\<forall>e. toPostfix (tokensE e) = Inr (postfixE e))
   \<and> (\<forall>e parseFloat. evaluatePostfix parseFloat (postfixE e) = valueE parseFloat e)
   \<and> (\<forall>e parseFloat.
         (\<forall>v \<in> set (numbersE e). numberText U v) \<longrightarrow>
         tokenize U (textE e) = Inr (tokensE e)
         \<and> calculate U parseFloat (textE e) = valueE parseFloat e)
   \<and> calculate U ParseFloat (runes ''2 + 3 * 4'') = Inr (Finite False 7881299347898368 (- 49))
   \<and> valof (Finite False 7881299347898368 (- 49)) = 14
   \<and> calculate U ParseFloat (runes ''(2 + 3) * 4'') = Inr (Finite False 5629499534213120 (- 48))
   \<and> valof (Finite False 5629499534213120 (- 48)) = 20
   \<and> calculate U ParseFloat (runes ''2 * 3 + 4'') = Inr (Finite False 5629499534213120 (- 49))
   \<and> valof (Finite False 5629499534213120 (- 49)) = 10"
proof (intro conjI allI impI)
  show "calculate U ParseFloat (runes ''2 + 3 * 4'') = Inr (Finite False 7881299347898368 (- 49))"
    by code_simp
  show "calculate U ParseFloat (runes ''(2 + 3) * 4'') = Inr (Finite False 5629499534213120 (- 48))"
    by code_simp
  show "calculate U ParseFloat (runes ''2 * 3 + 4'') = Inr (Finite False 5629499534213120 (- 49))"
    by code_simp
  show "valof (Finite False 7881299347898368 (- 49)) = 14"
    by (rule valof_examples)
  show "valof (Finite False 5629499534213120 (- 48)) = 20"
    by (rule valof_examples)
  show "valof (Finite False 5629499534213120 (- 49)) = 10"
    by (rule valof_ten)
  show "toPostfix [num a, opr p, num b, opr q, num c]
           = Inr (if precedenceOf p \<ge> precedenceOf q
                  then [num a, num b, opr p, num c, opr q]
                  else [num a, num b, num c, opr q, opr p])"
    for a b c p q
    by (rule toPostfix_two_operators)
  show "toPostfix [\<lparr>Type = LPAREN, Value = l\<rparr>, num a, opr p, num b, \<lparr>Type = RPAREN, Value = r\<rparr>,
                    opr q, num c]
           = Inr [num a, num b, opr p, num c, opr q]"
    for l r a b c p q
    by (rule toPostfix_grouped)
  show "toPostfix (tokensE e) = Inr (postfixE e)" for e
    by (rule toPostfix_grammar)
  show "evaluatePostfix parseFloat (postfixE e) = valueE parseFloat e" for e parseFloat
    by (rule evaluatePostfix_grammar)
  show t: "tokenize U (textE e) = Inr (tokensE e)"
    if "\<forall>v \<in> set (numbersE e). numberText U v" for e
    using that by (rule tokenize_grammar)
  show "calculate U parseFloat (textE e) = valueE parseFloat e"
    if "\<forall>v \<in> set (numbersE e). numberText U v" for e parseFloat
    using t [OF that] by (rule calculate_grammar)
qed (rule precedence_table)+

theorem calculate_precedence_witness:
  "list_all (numberText exampleTables)
     (numbersE (AddSub (Term (literal ''2'')) Plus (MulDiv (literal ''3'') Times (Number (runes ''4'')))))
   \<and> textE (AddSub (Term (literal ''2'')) Plus (MulDiv (literal ''3'') Times (Number (runes ''4''))))
       = runes ''2+3*4''
   \<and> calculate exampleTables ParseFloat (runes ''2+3*4'')
       = valueE ParseFloat (AddSub (Term (literal ''2'')) Plus (MulDiv (literal ''3'') Times (Number (runes ''4''))))
   \<and> valueE ParseFloat (AddSub (Term (literal ''2'')) Plus (MulDiv (literal ''3'') Times (Number (runes ''4''))))
       = Inr (Finite False 7881299347898368 (- 49))"
proof -
  let ?e = "AddSub (Term (literal ''2'')) Plus (MulDiv (literal ''3'') Times (Number (runes ''4'')))"
  have w: "list_all (numberText exampleTables) (numbersE ?e)"
    by code_simp
  then have h: "\<forall>v \<in> set (numbersE ?e). numberText exampleTables v"
    by (simp only: list_all_iff)
  have x: "textE ?e = runes ''2+3*4''"
    by (simp add: runes_def)
  have v: "valueE ParseFloat ?e = Inr (Finite False 7881299347898368 (- 49))"
    by code_simp
  note inst = calculate_precedence [of exampleTables]
  note a = inst [THEN conjunct2, THEN conjunct2, THEN conjunct2, THEN conjunct2, THEN conjunct2,
                 THEN conjunct2, THEN conjunct2, THEN conjunct2, THEN conjunct1]
  have b: "(\<forall>v \<in> set (numbersE ?e). numberText exampleTables v) \<longrightarrow>
      tokenize exampleTables (textE ?e) = Inr (tokensE ?e)
      \<and> calculate exampleTables ParseFloat (textE ?e) = valueE ParseFloat ?e"
    using a by (elim allE)
  have c: "calculate exampleTables ParseFloat (runes ''2+3*4'') = valueE ParseFloat ?e"
    using b [THEN mp, OF h, THEN conjunct2] unfolding x .
  from w x c v show ?thesis by (intro conjI)
qed

section \<open>The float64 model on examples\<close>

text \<open>
  Decimal literals and results that are not exact: \<open>1.5 * 2\<close> is 3, \<open>0.1 + 0.2\<close> is
  \<open>0.30000000000000004\<close>, \<open>2\<^sup>5\<^sup>3 + 1\<close> is read as \<open>2\<^sup>5\<^sup>3\<close>, and \<open>0 * (0 - 1)\<close> is the negative
  zero, which is a zero divisor as well.
\<close>

lemma float64_examples:
  "calculate U ParseFloat (runes ''1.5 * 2'') = Inr (Finite False 6755399441055744 (- 51))"
  "calculate U ParseFloat (runes ''0.1 + 0.2'') = Inr (Finite False 5404319552844596 (- 54))"
  "calculate U ParseFloat (runes ''1 / 3'') = Inr (Finite False 6004799503160661 (- 54))"
  "calculate U ParseFloat (runes ''9007199254740993'') = Inr (Finite False 4503599627370496 1)"
  "calculate U ParseFloat (runes ''0 * (0 - 1)'') = Inr (Finite True 0 (- 1074))"
  "calculate U ParseFloat (runes ''1 / (0 * (0 - 1))'') = Inl DivisionByZero"
  "calculate U ParseFloat (runes ''1.2.3'') = Inl (NumberParseError ErrSyntax (runes ''1.2.3''))"
  "calculate U ParseFloat (runes ''.'') = Inl (NumberParseError ErrSyntax (runes ''.''))"
  "calculate U ParseFloat (runes ''-5'') = Inl (InsufficientOperands (runes ''-''))"
  by code_simp+

text \<open>
  At the ends of the range: half a unit in the last place over the largest float64 is
  an infinity, and under the smallest subnormal a tie goes to the even neighbour.
\<close>

lemma roundFloat64_limits:
  "roundFloat64 False (2 ^ 1024) 1 0 = Infinity False"
  "roundFloat64 False (2 ^ 1024 - 2 ^ 970) 1 0 = Infinity False"
  "roundFloat64 False (2 ^ 1024 - 2 ^ 970 - 1) 1 0 = Finite False 9007199254740991 971"
  "roundFloat64 True 1 (2 ^ 1074) 0 = Finite True 1 (- 1074)"
  "roundFloat64 True 1 (2 ^ 1075) 0 = Finite True 0 (- 1074)"
  "roundFloat64 True 3 (2 ^ 1075) 0 = Finite True 2 (- 1074)"
  by code_simp+

end
